theory Spec2Isabelle
  imports Complex_Main
begin

section \<open>JavaScript values\<close>

text \<open>
  The scripts work on whatever \<open>JSON.parse\<close> returns, so the model keeps the payloads
  untyped. \<open>JUndefined\<close> is the result of reading a property that is not there. Numbers
  are reals. The geometry functions compute on them exactly; the sums of the trip
  totals, where the rounding of each addition decides what is shown, are computed in
  IEEE 754 binary64 arithmetic. Infinities and NaN are outside the model. A string is
  the list of its code units (the journal's data is ASCII). An object is the list of its
  own properties (keys distinct, as JSON.parse leaves them).
\<close>

datatype jsval =
    JUndefined
  | JNull
  | JBool bool
  | JNum real
  | JStr string
  | JArr "jsval list"
  | JObj "(string \<times> jsval) list"

text \<open>
  A computation returns a value, throws, or leaves the model: \<open>Unmodelled\<close> marks every
  place where JavaScript would convert a non-number to a number (or a number to a
  string) inside an arithmetic or relational operator, or would produce NaN or an infinity. No theorem
  below says anything about the program's result there.
\<close>

datatype exn = TypeError | Error string

datatype 'a res = Ret 'a | Throw exn | Unmodelled

fun bind_res :: "'a res \<Rightarrow> ('a \<Rightarrow> 'b res) \<Rightarrow> 'b res" where
  "bind_res (Ret x) f = f x"
| "bind_res (Throw e) f = Throw e"
| "bind_res Unmodelled f = Unmodelled"

text \<open>\<open>!v\<close> is \<open>\<not> truthy v\<close>.\<close>

fun truthy :: "jsval \<Rightarrow> bool" where
  "truthy JUndefined = False"
| "truthy JNull = False"
| "truthy (JBool b) = b"
| "truthy (JNum r) = (r \<noteq> 0)"
| "truthy (JStr s) = (s \<noteq> [])"
| "truthy (JArr xs) = True"
| "truthy (JObj kvs) = True"

text \<open>\<open>v == null\<close>: the value is \<open>null\<close> or \<open>undefined\<close>.\<close>

fun nullish :: "jsval \<Rightarrow> bool" where
  "nullish JUndefined = True"
| "nullish JNull = True"
| "nullish v = False"

text \<open>\<open>a || b\<close> on values.\<close>

definition or_else :: "jsval \<Rightarrow> jsval \<Rightarrow> jsval" where
  "or_else a b = (if truthy a then a else b)"

fun digit_char :: "nat \<Rightarrow> char" where
  "digit_char n = ''0123456789'' ! (n mod 10)"

fun string_of_nat :: "nat \<Rightarrow> string" where
  "string_of_nat n =
     (if n < 10 then [digit_char n] else string_of_nat (n div 10) @ [digit_char n])"

declare string_of_nat.simps [simp del]

text \<open>
  \<open>v.name\<close> for the property names the scripts read (\<open>type\<close>, \<open>features\<close>,
  \<open>geometry\<close>, \<open>coordinates\<close>, \<open>properties\<close>, \<open>day\<close>, \<open>distance_miles\<close>,
  \<open>elevation_gain_ft\<close>, \<open>length\<close>), on a value that is not \<open>null\<close> or \<open>undefined\<close>.
  Arrays and strings own \<open>length\<close>; numbers and booleans own none of these names.
\<close>

fun field :: "jsval \<Rightarrow> string \<Rightarrow> jsval" where
  "field (JObj kvs) name = (case map_of kvs name of Some v \<Rightarrow> v | None \<Rightarrow> JUndefined)"
| "field (JArr xs) name = (if name = ''length'' then JNum (real (length xs)) else JUndefined)"
| "field (JStr s) name = (if name = ''length'' then JNum (real (length s)) else JUndefined)"
| "field v name = JUndefined"

text \<open>\<open>v[i]\<close> for a literal index, on a value that is not \<open>null\<close> or \<open>undefined\<close>.\<close>

fun elem :: "jsval \<Rightarrow> nat \<Rightarrow> jsval" where
  "elem (JArr xs) i = (if i < length xs then xs ! i else JUndefined)"
| "elem (JStr s) i = (if i < length s then JStr [s ! i] else JUndefined)"
| "elem (JObj kvs) i = (case map_of kvs (string_of_nat i) of Some v \<Rightarrow> v | None \<Rightarrow> JUndefined)"
| "elem v i = JUndefined"

text \<open>The same reads where the source does not guard the base: they throw on
  \<open>null\<close> and \<open>undefined\<close>.\<close>

definition member :: "jsval \<Rightarrow> string \<Rightarrow> jsval res" where
  "member v name = (if nullish v then Throw TypeError else Ret (field v name))"

definition item :: "jsval \<Rightarrow> nat \<Rightarrow> jsval res" where
  "item v i = (if nullish v then Throw TypeError else Ret (elem v i))"

text \<open>\<open>for (const x of v)\<close>: arrays and strings are iterable, nothing else in a JSON
  payload is.\<close>

fun iterate :: "jsval \<Rightarrow> jsval list res" where
  "iterate (JArr xs) = Ret xs"
| "iterate (JStr s) = Ret (map (\<lambda>c. JStr [c]) s)"
| "iterate v = Throw TypeError"

text \<open>\<open>v.flat()\<close>: one level of nesting is removed from an array; any other value has
  no such method.\<close>

fun flat_item :: "jsval \<Rightarrow> jsval list" where
  "flat_item (JArr ys) = ys"
| "flat_item v = [v]"

fun flat :: "jsval \<Rightarrow> jsval res" where
  "flat (JArr xs) = Ret (JArr (concat (map flat_item xs)))"
| "flat v = Throw TypeError"

section \<open>Track extraction (trip.js)\<close>

definition extractCoordsFromGeometry :: "jsval \<Rightarrow> jsval res" where
  "extractCoordsFromGeometry geometry =
     (if \<not> truthy geometry then Ret (JArr [])
      else if field geometry ''type'' = JStr ''LineString''
        then Ret (or_else (field geometry ''coordinates'') (JArr []))
      else if field geometry ''type'' = JStr ''MultiLineString''
        then flat (or_else (field geometry ''coordinates'') (JArr []))
      else Ret (JArr []))"

text \<open>The body of the loop over the features: \<open>Some c\<close> is the \<open>return c\<close>, \<open>None\<close>
  is falling out of the loop.\<close>

definition featureCoords :: "jsval \<Rightarrow> jsval res" where
  "featureCoords feature = bind_res (member feature ''geometry'') extractCoordsFromGeometry"

fun scanFeatures :: "jsval list \<Rightarrow> jsval option res" where
  "scanFeatures [] = Ret None"
| "scanFeatures (feature # rest) =
     (case featureCoords feature of
        Ret c \<Rightarrow> if truthy (field c ''length'') then Ret (Some c) else scanFeatures rest
      | Throw e \<Rightarrow> Throw e
      | Unmodelled \<Rightarrow> Unmodelled)"

definition extractCoords :: "jsval \<Rightarrow> jsval res" where
  "extractCoords geojson =
     (if \<not> truthy geojson then Ret (JArr [])
      else
        case (if field geojson ''type'' = JStr ''FeatureCollection''
              then bind_res (iterate (or_else (field geojson ''features'') (JArr []))) scanFeatures
              else Ret None) of
          Ret (Some c) \<Rightarrow> Ret c
        | Ret None \<Rightarrow>
            if field geojson ''type'' = JStr ''Feature''
            then extractCoordsFromGeometry (field geojson ''geometry'')
            else extractCoordsFromGeometry geojson
        | Throw e \<Rightarrow> Throw e
        | Unmodelled \<Rightarrow> Unmodelled)"

definition getFirstFeatureProps :: "jsval \<Rightarrow> jsval" where
  "getFirstFeatureProps geojson =
     (if \<not> truthy geojson then JNull
      else if field geojson ''type'' = JStr ''FeatureCollection'' then
        or_else
          (let features = field geojson ''features'' in
           if truthy features
           then (let first = elem features 0 in
                 if truthy first then field first ''properties'' else first)
           else features)
          JNull
      else if field geojson ''type'' = JStr ''Feature''
        then or_else (field geojson ''properties'') JNull
      else JNull)"

section \<open>Geometry (utils.js)\<close>

text \<open>A value used as an operand of \<open>*\<close>, \<open>-\<close>, \<open>+\<close> or \<open><\<close>.\<close>

fun to_num :: "jsval \<Rightarrow> real res" where
  "to_num (JNum r) = Ret r"
| "to_num v = Unmodelled"

definition Math_round :: "real \<Rightarrow> real" where
  "Math_round x = of_int \<lfloor>x + 1 / 2\<rfloor>"

definition Math_sqrt :: "real \<Rightarrow> real res" where
  "Math_sqrt x = (if x < 0 then Unmodelled else Ret (sqrt x))"

definition Math_atan2 :: "real \<Rightarrow> real \<Rightarrow> real" where
  "Math_atan2 y x =
     (if 0 < x then arctan (y / x)
      else if x < 0 then (if 0 \<le> y then arctan (y / x) + pi else arctan (y / x) - pi)
      else if 0 < y then pi / 2
      else if y < 0 then - (pi / 2)
      else 0)"

definition toRad :: "real \<Rightarrow> real" where
  "toRad deg = (deg * pi) / 180"

text \<open>\<open>c[i]\<close> as a number.\<close>

definition coord :: "jsval \<Rightarrow> nat \<Rightarrow> real res" where
  "coord c i = bind_res (item c i) to_num"

definition haversineDistance :: "jsval \<Rightarrow> jsval \<Rightarrow> real res" where
  "haversineDistance c1 c2 =
     bind_res (coord c1 1) (\<lambda>y1.
     bind_res (coord c2 1) (\<lambda>y2.
     bind_res (coord c2 0) (\<lambda>x2.
     bind_res (coord c1 0) (\<lambda>x1.
       let R = 3958.8;
           lat1 = toRad y1;
           lat2 = toRad y2;
           dLat = toRad (y2 - y1);
           dLon = toRad (x2 - x1);
           a = (sin (dLat / 2))\<^sup>2 + cos lat1 * cos lat2 * (sin (dLon / 2))\<^sup>2
       in bind_res (Math_sqrt a) (\<lambda>s.
          bind_res (Math_sqrt (1 - a)) (\<lambda>t.
            Ret (R * 2 * Math_atan2 s t)))))))"

text \<open>The values \<open>i\<close> takes in \<open>for (let i = 1; i < n; i++)\<close>.\<close>

definition indices :: "real \<Rightarrow> nat list" where
  "indices n = [1 ..< nat \<lceil>n\<rceil>]"

fun distanceLoop :: "jsval \<Rightarrow> nat list \<Rightarrow> real \<Rightarrow> real res" where
  "distanceLoop coords [] tot = Ret tot"
| "distanceLoop coords (i # rest) tot =
     (case haversineDistance (elem coords (i - 1)) (elem coords i) of
        Ret d \<Rightarrow> distanceLoop coords rest (tot + d)
      | Throw e \<Rightarrow> Throw e
      | Unmodelled \<Rightarrow> Unmodelled)"

definition calcDistance :: "jsval \<Rightarrow> real res" where
  "calcDistance coords =
     (if \<not> truthy coords then Ret 0
      else bind_res (to_num (field coords ''length'')) (\<lambda>n.
        if n < 2 then Ret 0
        else bind_res (distanceLoop coords (indices n) 0) (\<lambda>tot.
          Ret (Math_round (tot * 10) / 10))))"

text \<open>One pass of the elevation loop body on the two elevations read.\<close>

fun addGain :: "jsval \<Rightarrow> jsval \<Rightarrow> real \<Rightarrow> real" where
  "addGain (JNum prevEle) (JNum currEle) gain =
     (if currEle - prevEle > 0 then gain + (currEle - prevEle) else gain)"
| "addGain prevEle currEle gain = gain"

fun gainLoop :: "jsval \<Rightarrow> nat list \<Rightarrow> real \<Rightarrow> real res" where
  "gainLoop coords [] gain = Ret gain"
| "gainLoop coords (i # rest) gain =
     (case item (elem coords (i - 1)) 2 of
        Ret prevEle \<Rightarrow>
          (case item (elem coords i) 2 of
             Ret currEle \<Rightarrow> gainLoop coords rest (addGain prevEle currEle gain)
           | Throw e \<Rightarrow> Throw e
           | Unmodelled \<Rightarrow> Unmodelled)
      | Throw e \<Rightarrow> Throw e
      | Unmodelled \<Rightarrow> Unmodelled)"

definition calcElevationGain :: "jsval \<Rightarrow> real res" where
  "calcElevationGain coords =
     (if \<not> truthy coords then Ret 0
      else bind_res (to_num (field coords ''length'')) (\<lambda>n.
        if n < 2 then Ret 0
        else bind_res (gainLoop coords (indices n) 0) (\<lambda>gain.
          Ret (Math_round ((gain * 3.28084) / 10) * 10))))"

section \<open>Numbers of the trip totals: IEEE 754 binary64\<close>

text \<open>
  The totals of the trip page add numbers that \<open>JSON.parse\<close> read from decimal
  literals and round the sum with \<open>Math.round(x * 10) / 10\<close>, so what the page shows
  depends on the rounding of every addition: \<open>0 + 0.01 + 2.34\<close> is
  \<open>2.3499999999999996\<close>, and the total shown is 2.3. These operations are therefore
  modelled on binary64 numbers: the reals \<open>m * 2 ^ e\<close> with \<open>\<bar>m\<bar> < 2 ^ 53\<close> and
  \<open>- 1074 \<le> e\<close>. An operation returns the exact result rounded to the nearest such
  number, a tie going to the even \<open>m\<close>.
\<close>

text \<open>How often a number that is 2 or more is halved until it is below 2, and how often
  a positive number below 1 is doubled until it is 1 or more.\<close>

function halvings :: "real \<Rightarrow> nat" where
  "halvings x = (if 2 \<le> x then Suc (halvings (x / 2)) else 0)"
  by pat_completeness auto
termination
proof (relation "measure (\<lambda>x. nat \<lceil>x\<rceil>)")
  show "wf (measure (\<lambda>x :: real. nat \<lceil>x\<rceil>))" by simp
next
  fix x :: real
  assume "2 \<le> x"
  then have "\<lceil>x / 2\<rceil> < \<lceil>x\<rceil>" by linarith
  moreover have "0 < \<lceil>x\<rceil>" using \<open>2 \<le> x\<close> by linarith
  ultimately show "(x / 2, x) \<in> measure (\<lambda>x. nat \<lceil>x\<rceil>)" by simp
qed

function doublings :: "real \<Rightarrow> nat" where
  "doublings x = (if 0 < x \<and> x < 1 then Suc (doublings (2 * x)) else 0)"
  by pat_completeness auto
termination
proof (relation "measure (\<lambda>x. nat \<lceil>1 / x\<rceil>)")
  show "wf (measure (\<lambda>x :: real. nat \<lceil>1 / x\<rceil>))" by simp
next
  fix x :: real
  assume a: "0 < x \<and> x < 1"
  define y where "y = 1 / x"
  have y: "1 < y" using a by (simp add: y_def)
  have h: "1 / (2 * x) = y / 2" by (simp add: y_def)
  have c: "2 \<le> \<lceil>y\<rceil>" using y by linarith
  have "y / 2 \<le> of_int (\<lceil>y\<rceil> - 1)"
  proof -
    have "y \<le> of_int \<lceil>y\<rceil>" by (rule le_of_int_ceiling)
    moreover have "(2 :: real) \<le> of_int \<lceil>y\<rceil>" using c by linarith
    ultimately have "y / 2 \<le> of_int \<lceil>y\<rceil> - 1" by linarith
    then show ?thesis by (simp only: of_int_diff of_int_1)
  qed
  then have "\<lceil>y / 2\<rceil> \<le> \<lceil>y\<rceil> - 1" by (simp only: ceiling_le_iff)
  then have "\<lceil>y / 2\<rceil> < \<lceil>y\<rceil>" by simp
  moreover have "0 < \<lceil>y\<rceil>" using c by simp
  ultimately have "nat \<lceil>y / 2\<rceil> < nat \<lceil>y\<rceil>" by simp
  then have "nat \<lceil>1 / (2 * x)\<rceil> < nat \<lceil>1 / x\<rceil>"
    unfolding h y_def .
  then show "(2 * x, x) \<in> measure (\<lambda>x. nat \<lceil>1 / x\<rceil>)"
    by (simp only: in_measure)
qed

declare halvings.simps [simp del] doublings.simps [simp del]

text \<open>The binary exponent \<open>e\<close> of a positive number \<open>x\<close>: \<open>2 ^ e \<le> x < 2 ^ (e + 1)\<close>.\<close>

definition exponent2 :: "real \<Rightarrow> int" where
  "exponent2 x = (if 1 \<le> x then int (halvings x) else - int (doublings x))"

definition pow2 :: "int \<Rightarrow> real" where
  "pow2 k = (if 0 \<le> k then 2 ^ nat k else 1 / 2 ^ nat (- k))"

text \<open>The nearest integer, a tie going to the even one.\<close>

definition round_even :: "real \<Rightarrow> int" where
  "round_even y =
     (let f = \<lfloor>y\<rfloor>; r = y - of_int f
      in if r < 1 / 2 then f else if 1 / 2 < r then f + 1 else if even f then f else f + 1)"

text \<open>The binary64 number nearest a real: 53 significant bits. A number below
  \<open>2 ^ - 1022\<close> in magnitude is rounded on the grid of the subnormal numbers, the
  multiples of \<open>2 ^ - 1074\<close>.\<close>

definition binary64 :: "real \<Rightarrow> real" where
  "binary64 x =
     (if x = 0 then 0
      else let e = max (exponent2 \<bar>x\<bar>) (- 1022); u = pow2 (e - 52)
           in of_int (round_even (x / u)) * u)"

text \<open>A result as the program holds it. An exact result that rounds to \<open>2 ^ 1024\<close> or
  beyond is \<open>Infinity\<close>, which is outside the model.\<close>

definition double :: "real \<Rightarrow> real res" where
  "double x = (if \<bar>binary64 x\<bar> < 2 ^ 1024 then Ret (binary64 x) else Unmodelled)"

text \<open>\<open>a + b\<close>, \<open>a * b\<close> and \<open>a / b\<close> on two numbers the program holds. A division by zero
  is an infinity or NaN.\<close>

definition double_add :: "real \<Rightarrow> real \<Rightarrow> real res" where
  "double_add a b = double (a + b)"

definition double_mul :: "real \<Rightarrow> real \<Rightarrow> real res" where
  "double_mul a b = double (a * b)"

definition double_div :: "real \<Rightarrow> real \<Rightarrow> real res" where
  "double_div a b = (if b = 0 then Unmodelled else double (a / b))"

text \<open>A statistic of a day used as an operand of \<open>+=\<close>. The program holds the
  binary64 number nearest the number of the model: \<open>JSON.parse\<close> rounds a decimal
  literal to nearest, and so do the division that ends \<open>calcDistance\<close> and the product
  that ends \<open>calcElevationGain\<close>.\<close>

definition to_double :: "jsval \<Rightarrow> real res" where
  "to_double v = bind_res (to_num v) double"

section \<open>Per-day results and trip totals (trip.js)\<close>

record DayResult =
  index :: nat
  filename :: string
  url :: string
  ok :: bool
  geojson :: jsval
  dayNumber :: jsval
  distance :: jsval
  elevation :: jsval
  error :: "exn option"

text \<open>\<open>props && props.name != null\<close>.\<close>

definition overridden :: "jsval \<Rightarrow> string \<Rightarrow> bool" where
  "overridden props name = (truthy props \<and> \<not> nullish (field props name))"

text \<open>One statement of the \<open>try\<close> block and the statements after it: when the
  statement throws, the \<open>catch\<close> clause stores the message in the result built so far.\<close>

definition attempt :: "'a res \<Rightarrow> DayResult \<Rightarrow> ('a \<Rightarrow> DayResult res) \<Rightarrow> DayResult res" where
  "attempt step result rest =
     (case step of
        Ret x \<Rightarrow> rest x
      | Throw e \<Rightarrow> Ret (result\<lparr>error := Some e\<rparr>)
      | Unmodelled \<Rightarrow> Unmodelled)"

definition as_value :: "real res \<Rightarrow> jsval res" where
  "as_value r = bind_res r (\<lambda>x. Ret (JNum x))"

text \<open>
  \<open>fetched\<close> is what \<open>fetch(url)\<close> followed by \<open>res.json()\<close> gave: \<open>Inl e\<close> when the
  request failed, the status was not ok or the body did not parse (\<open>e\<close> is the
  exception), \<open>Inr payload\<close> otherwise.
\<close>

definition loadDayGeoJSON ::
  "string \<Rightarrow> string \<Rightarrow> string \<Rightarrow> nat \<Rightarrow> exn + jsval \<Rightarrow> DayResult res" where
  "loadDayGeoJSON tripId dataRoot fname idx fetched =
     (let result = \<lparr>index = idx, filename = fname,
                     url = dataRoot @ ''/'' @ tripId @ ''/'' @ fname,
                     ok = False, geojson = JNull, dayNumber = JNum (real idx + 1),
                     distance = JNum 0, elevation = JNum 0, error = None\<rparr>
      in case fetched of
           Inl err \<Rightarrow> Ret (result\<lparr>error := Some err\<rparr>)
         | Inr payload \<Rightarrow>
             let result = result\<lparr>geojson := payload, ok := True\<rparr> in
             attempt (extractCoords payload) result (\<lambda>coords.
               let props = getFirstFeatureProps payload;
                   result = result\<lparr>dayNumber :=
                     (if overridden props ''day'' then field props ''day''
                      else JNum (real idx + 1))\<rparr>
               in attempt (if overridden props ''distance_miles''
                           then Ret (field props ''distance_miles'')
                           else as_value (calcDistance coords)) result (\<lambda>d.
                    let result = result\<lparr>distance := d\<rparr>
                    in attempt (if overridden props ''elevation_gain_ft''
                                then Ret (field props ''elevation_gain_ft'')
                                else as_value (calcElevationGain coords)) result (\<lambda>e.
                         Ret (result\<lparr>elevation := e\<rparr>)))))"

text \<open>\<open>fetched i\<close> is the outcome of the request issued for position \<open>i\<close> of the
  day list.\<close>

definition loadAllDays ::
  "string \<Rightarrow> string \<Rightarrow> string list \<Rightarrow> (nat \<Rightarrow> exn + jsval) \<Rightarrow> DayResult res list" where
  "loadAllDays tripId dataRoot dayFiles fetched =
     map (\<lambda>i. loadDayGeoJSON tripId dataRoot (dayFiles ! i) i (fetched i))
       [0 ..< length dayFiles]"

record TripTotals =
  totalDistance :: real
  totalElevation :: real
  daysCount :: nat

text \<open>The loop of lines 71 to 74 of \<open>initTripPage\<close>, on the two accumulators.\<close>

fun sumDays :: "DayResult list \<Rightarrow> real \<Rightarrow> real \<Rightarrow> (real \<times> real) res" where
  "sumDays [] td te = Ret (td, te)"
| "sumDays (day # rest) td te =
     (case bind_res (to_double (distance day)) (double_add td) of
        Ret td' \<Rightarrow>
          (case bind_res (to_double (elevation day)) (double_add te) of
             Ret te' \<Rightarrow> sumDays rest td' te'
           | Throw x \<Rightarrow> Throw x
           | Unmodelled \<Rightarrow> Unmodelled)
      | Throw x \<Rightarrow> Throw x
      | Unmodelled \<Rightarrow> Unmodelled)"

text \<open>Lines 67 to 78 of \<open>initTripPage\<close>: the numbers written into the page,
  \<open>Math.round(totalDistance * 10) / 10\<close>, \<open>Math.round(totalElevation / 10) * 10\<close> and
  \<open>validDays.length\<close>. \<open>Math.round\<close> is exact: the integer it returns is a binary64
  number.\<close>

definition tripTotals :: "DayResult list \<Rightarrow> TripTotals res" where
  "tripTotals dayResults =
     (let validDays = filter ok dayResults
      in bind_res (sumDays validDays 0 0) (\<lambda>(td, te).
         bind_res (double_mul td 10) (\<lambda>a.
         bind_res (double_div (Math_round a) 10) (\<lambda>miles.
         bind_res (double_div te 10) (\<lambda>b.
         bind_res (double_mul (Math_round b) 10) (\<lambda>feet.
           Ret \<lparr>totalDistance = miles, totalElevation = feet,
                daysCount = length validDays\<rparr>))))))"

text \<open>\<open>Promise.all\<close> over the per-day results.\<close>

fun collect :: "'a res list \<Rightarrow> 'a list res" where
  "collect [] = Ret []"
| "collect (r # rs) =
     (case r of
        Ret x \<Rightarrow> (case collect rs of Ret xs \<Rightarrow> Ret (x # xs) | Throw e \<Rightarrow> Throw e
                  | Unmodelled \<Rightarrow> Unmodelled)
      | Throw e \<Rightarrow> Throw e
      | Unmodelled \<Rightarrow> Unmodelled)"

text \<open>Lines 64 to 78 of \<open>initTripPage\<close>: the per-day results handed to the table, the
  map and the legend, and the totals. The lines run on a day list that is not empty: on an
  empty one \<open>initTripPage\<close> reports that no day files are listed and returns before
  them.\<close>

definition aggregate ::
  "string \<Rightarrow> string \<Rightarrow> string list \<Rightarrow> (nat \<Rightarrow> exn + jsval)
     \<Rightarrow> DayResult res list \<times> TripTotals res" where
  "aggregate tripId dataRoot dayFiles fetched =
     (let dayResults = loadAllDays tripId dataRoot dayFiles fetched
      in (dayResults, bind_res (collect dayResults) tripTotals))"

section \<open>Per-day statistics of the homepage script\<close>

definition main_extractCoordsFromGeometry :: "jsval \<Rightarrow> jsval res" where
  "main_extractCoordsFromGeometry geometry =
     (if \<not> truthy geometry then Ret (JArr [])
      else if field geometry ''type'' = JStr ''LineString''
        then Ret (or_else (field geometry ''coordinates'') (JArr []))
      else if field geometry ''type'' = JStr ''MultiLineString''
        then flat (or_else (field geometry ''coordinates'') (JArr []))
      else Ret (JArr []))"

fun main_scanFeatures :: "jsval list \<Rightarrow> jsval option res" where
  "main_scanFeatures [] = Ret None"
| "main_scanFeatures (f # rest) =
     (case bind_res (member f ''geometry'') main_extractCoordsFromGeometry of
        Ret c \<Rightarrow> if truthy (field c ''length'') then Ret (Some c) else main_scanFeatures rest
      | Throw e \<Rightarrow> Throw e
      | Unmodelled \<Rightarrow> Unmodelled)"

definition main_extractCoords :: "jsval \<Rightarrow> jsval res" where
  "main_extractCoords payload =
     (if \<not> truthy payload then Ret (JArr [])
      else
        case (if field payload ''type'' = JStr ''FeatureCollection''
              then bind_res (iterate (or_else (field payload ''features'') (JArr [])))
                     main_scanFeatures
              else Ret None) of
          Ret (Some c) \<Rightarrow> Ret c
        | Ret None \<Rightarrow>
            if field payload ''type'' = JStr ''Feature''
            then main_extractCoordsFromGeometry (field payload ''geometry'')
            else main_extractCoordsFromGeometry payload
        | Throw e \<Rightarrow> Throw e
        | Unmodelled \<Rightarrow> Unmodelled)"

text \<open>\<open>a?.[0]\<close> and \<open>a?.name\<close> give \<open>undefined\<close> when \<open>a\<close> is \<open>null\<close> or
  \<open>undefined\<close>.\<close>

definition main_getFirstFeatureProps :: "jsval \<Rightarrow> jsval" where
  "main_getFirstFeatureProps payload =
     (if \<not> truthy payload then JNull
      else if field payload ''type'' = JStr ''FeatureCollection'' then
        or_else
          (let features = field payload ''features'' in
           if nullish features then JUndefined
           else (let first = elem features 0 in
                 if nullish first then JUndefined else field first ''properties''))
          JNull
      else if field payload ''type'' = JStr ''Feature''
        then or_else (field payload ''properties'') JNull
      else JNull)"

record DayStats =
  stats_ok :: bool
  stats_distance :: jsval
  stats_elevation :: jsval

definition fetchDayStats :: "exn + jsval \<Rightarrow> DayStats res" where
  "fetchDayStats fetched =
     (let failed = \<lparr>stats_ok = False, stats_distance = JNum 0, stats_elevation = JNum 0\<rparr>
      in case fetched of
           Inl err \<Rightarrow> Ret failed
         | Inr payload \<Rightarrow>
             (case bind_res (main_extractCoords payload) (\<lambda>coords.
                     let props = main_getFirstFeatureProps payload in
                     bind_res (if overridden props ''distance_miles''
                               then Ret (field props ''distance_miles'')
                               else as_value (calcDistance coords)) (\<lambda>d.
                     bind_res (if overridden props ''elevation_gain_ft''
                               then Ret (field props ''elevation_gain_ft'')
                               else as_value (calcElevationGain coords)) (\<lambda>e.
                       Ret \<lparr>stats_ok = True, stats_distance = d, stats_elevation = e\<rparr>))) of
                Ret stats \<Rightarrow> Ret stats
              | Throw e \<Rightarrow> Ret failed
              | Unmodelled \<Rightarrow> Unmodelled))"

section \<open>Elapsed time (utils.js)\<close>

text \<open>The em dash the scripts show for a value they do not know, as its UTF-8 bytes.\<close>

definition dash :: string where
  "dash = [CHR 0xE2, CHR 0x80, CHR 0x94]"

text \<open>\<open>${d}\<close> for a date that is a string or \<open>undefined\<close>, and \<open>t || '00:00'\<close> for a
  time that is a string or \<open>undefined\<close>.\<close>

fun template :: "string option \<Rightarrow> string" where
  "template None = ''undefined''"
| "template (Some s) = s"

fun timeOrMidnight :: "string option \<Rightarrow> string" where
  "timeOrMidnight None = ''00:00''"
| "timeOrMidnight (Some s) = (if s = [] then ''00:00'' else s)"

text \<open>
  The time value of a \<open>Date\<close> is a whole number of milliseconds, or NaN for an invalid
  date: \<open>None\<close> is NaN here. The operators below are the ones \<open>calcElapsedTime\<close>
  applies to such numbers; each gives NaN on NaN, and NaN is neither \<open>\<le> 0\<close> nor truthy.
\<close>

type_synonym msec = "int option"

fun nan_minus :: "msec \<Rightarrow> msec \<Rightarrow> msec" where
  "nan_minus (Some a) (Some b) = Some (a - b)"
| "nan_minus a b = None"

fun nan_floor_div :: "msec \<Rightarrow> int \<Rightarrow> msec" where
  "nan_floor_div (Some a) c = Some (a div c)"
| "nan_floor_div None c = None"

fun nan_times :: "msec \<Rightarrow> int \<Rightarrow> msec" where
  "nan_times (Some a) c = Some (a * c)"
| "nan_times None c = None"

fun nan_le_zero :: "msec \<Rightarrow> bool" where
  "nan_le_zero (Some a) = (a \<le> 0)"
| "nan_le_zero None = False"

fun nan_truthy :: "msec \<Rightarrow> bool" where
  "nan_truthy (Some a) = (a \<noteq> 0)"
| "nan_truthy None = False"

definition string_of_int :: "int \<Rightarrow> string" where
  "string_of_int k = (if k < 0 then ''-'' @ string_of_nat (nat (- k)) else string_of_nat (nat k))"

fun show_msec :: "msec \<Rightarrow> string" where
  "show_msec (Some a) = string_of_int a"
| "show_msec None = ''NaN''"

text \<open>\<open>parts.join(' ')\<close>.\<close>

fun join_space :: "string list \<Rightarrow> string" where
  "join_space [] = []"
| "join_space [p] = p"
| "join_space (p # ps) = p @ '' '' @ join_space ps"

text \<open>
  \<open>parse\<close> stands for \<open>new Date(string)\<close> read as a number: the runtime's parser of
  date strings, in the zone of the browser. It throws on no string, so the \<open>catch\<close>
  clause of \<open>calcElapsedTime\<close> is never entered and has no branch here.
\<close>

definition calcElapsedTime ::
  "(string \<Rightarrow> msec) \<Rightarrow> string option \<Rightarrow> string option \<Rightarrow> string option \<Rightarrow> string option
     \<Rightarrow> string" where
  "calcElapsedTime parse startDate startTime endDate endTime =
     (let start = parse (template startDate @ ''T'' @ timeOrMidnight startTime);
          finish = parse (template endDate @ ''T'' @ timeOrMidnight endTime);
          diffMs = nan_minus finish start
      in if nan_le_zero diffMs then dash
         else
           let days = nan_floor_div diffMs 86400000;
               diffMs = nan_minus diffMs (nan_times days 86400000);
               hours = nan_floor_div diffMs 3600000;
               diffMs = nan_minus diffMs (nan_times hours 3600000);
               minutes = nan_floor_div diffMs 60000;
               parts = (if nan_truthy days then [show_msec days @ ''d''] else [])
                     @ (if nan_truthy hours then [show_msec hours @ ''h''] else [])
                     @ (if nan_truthy minutes then [show_msec minutes @ ''m''] else []);
               joined = join_space parts
           in if joined = [] then ''< 1m'' else joined)"

subsection \<open>A date parser for the strings of the examples\<close>

text \<open>
  The runtime's parser on the one form the journal's data uses, \<open>YYYY-MM-DDTHH:mm\<close>,
  read as local time in a zone that stays \<open>offset\<close> minutes ahead of UTC. Every other
  string is an invalid date here. Only the theorems about concrete dates use it.
\<close>

definition digit_of :: "char \<Rightarrow> nat option" where
  "digit_of c = (let n = (of_char c :: nat) in if 48 \<le> n \<and> n \<le> 57 then Some (n - 48) else None)"

fun number_of :: "string \<Rightarrow> nat \<Rightarrow> nat option" where
  "number_of [] acc = Some acc"
| "number_of (c # cs) acc =
     (case digit_of c of None \<Rightarrow> None | Some d \<Rightarrow> number_of cs (10 * acc + d))"

definition leap_year :: "nat \<Rightarrow> bool" where
  "leap_year y = (y mod 4 = 0 \<and> (y mod 100 \<noteq> 0 \<or> y mod 400 = 0))"

definition days_in_month :: "nat \<Rightarrow> nat \<Rightarrow> nat" where
  "days_in_month y m =
     (if m = 2 then (if leap_year y then 29 else 28)
      else if m = 4 \<or> m = 6 \<or> m = 9 \<or> m = 11 then 30 else 31)"

text \<open>Days from 1970-01-01 to the given day of the proleptic Gregorian calendar.\<close>

definition days_from_civil :: "nat \<Rightarrow> nat \<Rightarrow> nat \<Rightarrow> int" where
  "days_from_civil y m d =
     (let y' = (if m \<le> 2 then int y - 1 else int y);
          era = y' div 400;
          yoe = y' - era * 400;
          mp = (if m > 2 then int m - 3 else int m + 9);
          doy = (153 * mp + 2) div 5 + int d - 1;
          doe = yoe * 365 + yoe div 4 - yoe div 100 + doy
      in era * 146097 + doe - 719468)"

definition Date_local :: "int \<Rightarrow> string \<Rightarrow> msec" where
  "Date_local offset s =
     (if length s = 16 \<and> s ! 4 = CHR ''-'' \<and> s ! 7 = CHR ''-'' \<and> s ! 10 = CHR ''T''
         \<and> s ! 13 = CHR '':''
      then
        case (number_of (take 4 s) 0, number_of (take 2 (drop 5 s)) 0,
              number_of (take 2 (drop 8 s)) 0, number_of (take 2 (drop 11 s)) 0,
              number_of (take 2 (drop 14 s)) 0) of
          (Some y, Some m, Some d, Some h, Some mi) \<Rightarrow>
            if 1 \<le> m \<and> m \<le> 12 \<and> 1 \<le> d \<and> d \<le> days_in_month y m \<and> h \<le> 23 \<and> mi \<le> 59
            then Some ((((days_from_civil y m d * 24 + int h) * 60 + int mi) - offset) * 60000)
            else None
        | _ \<Rightarrow> None
      else None)"

section \<open>Descriptions the code is compared with\<close>

text \<open>The gain of one segment: the rise between two points that both carry a numeric
  third element, and nothing for a descent or a missing elevation.\<close>

definition segmentGain :: "jsval \<Rightarrow> jsval \<Rightarrow> real" where
  "segmentGain p q =
     (case (elem p 2, elem q 2) of
        (JNum a, JNum b) \<Rightarrow> if a < b then b - a else 0
      | _ \<Rightarrow> 0)"

text \<open>The sum of the gains of the consecutive pairs of a track, in metres.\<close>

fun climbs :: "jsval list \<Rightarrow> real" where
  "climbs (p # q # rest) = segmentGain p q + climbs (q # rest)"
| "climbs ps = 0"

text \<open>Whole days, then whole hours of what is left, then whole minutes of what is left
  after that.\<close>

definition elapsed_parts :: "int \<Rightarrow> int \<times> int \<times> int" where
  "elapsed_parts diff =
     (let d = diff div 86400000;
          r = diff - d * 86400000;
          h = r div 3600000;
          r' = r - h * 3600000;
          m = r' div 60000
      in (d, h, m))"

text \<open>The components that are not zero, each with its unit letter, joined by spaces;
  \<open>< 1m\<close> when all three are zero.\<close>

definition elapsed_format :: "int \<times> int \<times> int \<Rightarrow> string" where
  "elapsed_format dhm =
     (case dhm of (d, h, m) \<Rightarrow>
        if d = 0 \<and> h = 0 \<and> m = 0 then ''< 1m''
        else join_space (map (\<lambda>(n, u). string_of_int n @ u)
               (filter (\<lambda>(n, u). n \<noteq> 0) [(d, ''d''), (h, ''h''), (m, ''m'')])))"

text \<open>The haversine of an angle, degrees as radians, and the great-circle distance in
  miles between two points given by longitude and latitude in degrees, on a sphere of
  radius 3958.8.\<close>

definition hav :: "real \<Rightarrow> real" where
  "hav \<theta> = (sin (\<theta> / 2))\<^sup>2"

definition radians :: "real \<Rightarrow> real" where
  "radians deg = deg * pi / 180"

definition greatCircle :: "real \<Rightarrow> real \<Rightarrow> real \<Rightarrow> real \<Rightarrow> real" where
  "greatCircle lon1 lat1 lon2 lat2 =
     2 * 3958.8 * arcsin (sqrt (hav (radians lat2 - radians lat1)
        + cos (radians lat1) * cos (radians lat2) * hav (radians lon2 - radians lon1)))"

text \<open>A point whose first two elements are numbers, and those two numbers.\<close>

definition numeric_point :: "jsval \<Rightarrow> bool" where
  "numeric_point p = (case (elem p 0, elem p 1) of (JNum x, JNum y) \<Rightarrow> True | _ \<Rightarrow> False)"

definition lon :: "jsval \<Rightarrow> real" where
  "lon p = (case elem p 0 of JNum x \<Rightarrow> x | _ \<Rightarrow> 0)"

definition lat :: "jsval \<Rightarrow> real" where
  "lat p = (case elem p 1 of JNum y \<Rightarrow> y | _ \<Rightarrow> 0)"

definition distanceBetween :: "jsval \<Rightarrow> jsval \<Rightarrow> real" where
  "distanceBetween p q = greatCircle (lon p) (lat p) (lon q) (lat q)"

text \<open>The sum of the distances of the consecutive pairs of a track, in miles.\<close>

fun trackLength :: "jsval list \<Rightarrow> real" where
  "trackLength (p # q # rest) = distanceBetween p q + trackLength (q # rest)"
| "trackLength ps = 0"

text \<open>
  The shapes of a track record. A path is an array of points whose first two elements
  are numbers. A geometry is an object; when its kind is \<open>LineString\<close> its coordinates
  are absent or a path, when its kind is \<open>MultiLineString\<close> they are absent or an array
  of paths. A feature is an object whose geometry is absent or a geometry. A record is a
  feature collection (its features absent or an array of features), a feature, or a
  geometry.
\<close>

definition is_path :: "jsval \<Rightarrow> bool" where
  "is_path c = (case c of JArr ps \<Rightarrow> list_all numeric_point ps | _ \<Rightarrow> False)"

definition is_geometry :: "jsval \<Rightarrow> bool" where
  "is_geometry g =
     (case g of
        JObj kvs \<Rightarrow>
          if field g ''type'' = JStr ''LineString''
          then \<not> truthy (field g ''coordinates'') \<or> is_path (field g ''coordinates'')
          else if field g ''type'' = JStr ''MultiLineString''
          then \<not> truthy (field g ''coordinates'')
             \<or> (case field g ''coordinates'' of JArr paths \<Rightarrow> list_all is_path paths | _ \<Rightarrow> False)
          else True
      | _ \<Rightarrow> False)"

definition is_feature :: "jsval \<Rightarrow> bool" where
  "is_feature f =
     (case f of
        JObj kvs \<Rightarrow> \<not> truthy (field f ''geometry'') \<or> is_geometry (field f ''geometry'')
      | _ \<Rightarrow> False)"

definition track_record :: "jsval \<Rightarrow> bool" where
  "track_record r =
     (case r of
        JObj kvs \<Rightarrow>
          if field r ''type'' = JStr ''FeatureCollection''
          then \<not> truthy (field r ''features'')
             \<or> (case field r ''features'' of JArr fs \<Rightarrow> list_all is_feature fs | _ \<Rightarrow> False)
          else if field r ''type'' = JStr ''Feature'' then is_feature r
          else is_geometry r
      | _ \<Rightarrow> False)"

text \<open>A day file used to instantiate the theorems: a feature collection whose first
  feature overrides the day number and the distance, carries \<open>null\<close> for the elevation
  gain, and has a two-point path climbing 104 metres.\<close>

definition sample_day :: jsval where
  "sample_day =
     JObj [(''type'', JStr ''FeatureCollection''),
           (''features'', JArr
             [JObj [(''type'', JStr ''Feature''),
                    (''properties'', JObj [(''day'', JNum 7), (''distance_miles'', JNum (- 5)),
                                           (''elevation_gain_ft'', JNull)]),
                    (''geometry'', JObj [(''type'', JStr ''LineString''),
                                         (''coordinates'', JArr [JArr [JNum 0, JNum 0, JNum 100],
                                                                 JArr [JNum 0, JNum 0, JNum 204]])])]])]"

text \<open>The number in a statistic, and the days both of whose statistics are numbers.\<close>

definition number :: "jsval \<Rightarrow> real" where
  "number v = (case v of JNum x \<Rightarrow> x | _ \<Rightarrow> 0)"

definition numeric_stats :: "DayResult \<Rightarrow> bool" where
  "numeric_stats d =
     (case (distance d, elevation d) of (JNum x, JNum y) \<Rightarrow> True | _ \<Rightarrow> False)"

text \<open>A record whose overrides of distance and elevation, where it has them, are
  numbers.\<close>

definition numeric_overrides :: "jsval \<Rightarrow> bool" where
  "numeric_overrides g =
     (let props = getFirstFeatureProps g in
        (overridden props ''distance_miles'' \<longrightarrow>
           (case field props ''distance_miles'' of JNum x \<Rightarrow> True | _ \<Rightarrow> False))
      \<and> (overridden props ''elevation_gain_ft'' \<longrightarrow>
           (case field props ''elevation_gain_ft'' of JNum x \<Rightarrow> True | _ \<Rightarrow> False)))"

text \<open>Two results that agree on what the totals read: the success flag, the distance
  and the elevation.\<close>

definition same_stats :: "DayResult \<Rightarrow> DayResult \<Rightarrow> bool" where
  "same_stats d d' = (ok d = ok d' \<and> distance d = distance d' \<and> elevation d = elevation d')"

fun same_res :: "DayResult res \<Rightarrow> DayResult res \<Rightarrow> bool" where
  "same_res (Ret d) (Ret d') = same_stats d d'"
| "same_res (Throw e) (Throw e') = (e = e')"
| "same_res Unmodelled Unmodelled = True"
| "same_res a b = False"

text \<open>The result of a request that failed.\<close>

fun failed_day :: "DayResult res \<Rightarrow> bool" where
  "failed_day (Ret d) = (\<not> ok d)"
| "failed_day a = False"

text \<open>The positions of the day list whose request succeeded.\<close>

definition succeeded :: "(nat \<Rightarrow> exn + jsval) \<Rightarrow> nat \<Rightarrow> nat list" where
  "succeeded fetched n = filter (\<lambda>i. \<not> isl (fetched i)) [0 ..< n]"

text \<open>A day file with a two-point path that climbs 5 metres on the spot.\<close>

definition sample_climb :: jsval where
  "sample_climb =
     JObj [(''type'', JStr ''LineString''),
           (''coordinates'', JArr [JArr [JNum 0, JNum 0, JNum 0], JArr [JNum 0, JNum 0, JNum 5]])]"

text \<open>The running total after the numbers of a list were added to it one after the other
  in binary64 arithmetic, each number being the binary64 number nearest its decimal.\<close>

fun sum64 :: "real list \<Rightarrow> real \<Rightarrow> real" where
  "sum64 [] acc = acc"
| "sum64 (x # xs) acc = sum64 xs (binary64 (acc + binary64 x))"

text \<open>A binary64 number rounded to one decimal and to the nearest ten in binary64
  arithmetic: times ten, nearest integer (a half going up), divided by ten, and the other
  way round.\<close>

definition tenth64 :: "real \<Rightarrow> real" where
  "tenth64 x = binary64 (of_int \<lfloor>binary64 (x * 10) + 1 / 2\<rfloor> / 10)"

definition ten64 :: "real \<Rightarrow> real" where
  "ten64 x = binary64 (of_int \<lfloor>binary64 (x / 10) + 1 / 2\<rfloor> * 10)"

text \<open>The totals of a trip whose successful days have the distances \<open>ds\<close> and the
  elevations \<open>es\<close>: the binary64 sums, rounded again.\<close>

definition binary64_totals :: "real list \<Rightarrow> real list \<Rightarrow> TripTotals" where
  "binary64_totals ds es =
     \<lparr>totalDistance = tenth64 (sum64 ds 0), totalElevation = ten64 (sum64 es 0),
      daysCount = length ds\<rparr>"

text \<open>The same totals in exact decimal arithmetic: the sum of the distances rounded to
  one decimal and the sum of the elevations rounded to the nearest ten.\<close>

definition decimal_totals :: "real list \<Rightarrow> real list \<Rightarrow> TripTotals" where
  "decimal_totals ds es =
     \<lparr>totalDistance = Math_round (sum_list ds * 10) / 10,
      totalElevation = Math_round (sum_list es / 10) * 10,
      daysCount = length ds\<rparr>"

text \<open>A number with at most one decimal, and a whole number.\<close>

definition tenths :: "real \<Rightarrow> bool" where
  "tenths x = (of_int \<lfloor>x * 10\<rfloor> = x * 10)"

definition whole :: "real \<Rightarrow> bool" where
  "whole x = (of_int \<lfloor>x\<rfloor> = x)"

text \<open>A day whose two statistics are at most \<open>2 ^ b\<close> in magnitude.\<close>

definition stats_within :: "nat \<Rightarrow> DayResult \<Rightarrow> bool" where
  "stats_within b d =
     (\<bar>number (distance d)\<bar> \<le> 2 ^ b \<and> \<bar>number (elevation d)\<bar> \<le> 2 ^ b)"

text \<open>A day file whose feature states both statistics, over a two-point path.\<close>

definition stated_day :: "real \<Rightarrow> real \<Rightarrow> jsval" where
  "stated_day miles feet =
     JObj [(''type'', JStr ''Feature''),
           (''properties'', JObj [(''distance_miles'', JNum miles),
                                  (''elevation_gain_ft'', JNum feet)]),
           (''geometry'', JObj [(''type'', JStr ''LineString''),
                                (''coordinates'', JArr [JArr [JNum 0, JNum 0, JNum 0],
                                                        JArr [JNum 0, JNum 0, JNum 5]])])]"

section \<open>Properties of the elapsed time\<close>

lemma join_space_Cons_nonempty: "p \<noteq> [] \<Longrightarrow> join_space (p # ps) \<noteq> []"
  by (cases ps) auto

lemma calcElapsedTime_parts:
  assumes "parse (template sd @ ''T'' @ timeOrMidnight st) = Some s"
    and "parse (template ed @ ''T'' @ timeOrMidnight et) = Some e"
    and "s < e" and "elapsed_parts (e - s) = (d, h, m)"
  shows "calcElapsedTime parse sd st ed et =
     (let joined = join_space
         ((if d \<noteq> 0 then [string_of_int d @ ''d''] else [])
        @ (if h \<noteq> 0 then [string_of_int h @ ''h''] else [])
        @ (if m \<noteq> 0 then [string_of_int m @ ''m''] else []))
      in if joined = [] then ''< 1m'' else joined)"
proof -
  have d: "d = (e - s) div 86400000"
    using assms(4) by (auto simp: elapsed_parts_def Let_def)
  have h: "h = (e - s - d * 86400000) div 3600000"
    using assms(4) by (auto simp: elapsed_parts_def Let_def)
  have m: "m = (e - s - d * 86400000 - h * 3600000) div 60000"
    using assms(4) by (auto simp: elapsed_parts_def Let_def)
  show ?thesis
    unfolding calcElapsedTime_def Let_def assms(1,2)
    unfolding nan_minus.simps nan_floor_div.simps nan_times.simps nan_truthy.simps
      nan_le_zero.simps show_msec.simps d [symmetric]
    unfolding h [symmetric] m [symmetric]
    using assms(3) by simp
qed

lemma calcElapsedTime_valid:
  assumes "parse (template sd @ ''T'' @ timeOrMidnight st) = Some s"
    and "parse (template ed @ ''T'' @ timeOrMidnight et) = Some e"
  shows "calcElapsedTime parse sd st ed et =
           (if e \<le> s then dash else elapsed_format (elapsed_parts (e - s)))"
proof (cases "e \<le> s")
  case True
  then show ?thesis using assms by (simp add: calcElapsedTime_def)
next
  case False
  obtain d h m where p: "elapsed_parts (e - s) = (d, h, m)"
    by (cases "elapsed_parts (e - s)")
  from False have lt: "s < e" by simp
  have "calcElapsedTime parse sd st ed et = elapsed_format (d, h, m)"
    unfolding calcElapsedTime_parts [OF assms lt p] elapsed_format_def
    by (cases "d = 0"; cases "h = 0"; cases "m = 0")
       (simp_all add: join_space_Cons_nonempty)
  with False p show ?thesis by simp
qed

lemma elapsed_parts_bounds:
  assumes "0 < diff" and "elapsed_parts diff = (d, h, m)"
  shows "0 \<le> d \<and> 0 \<le> h \<and> h < 24 \<and> 0 \<le> m \<and> m < 60
     \<and> d * 86400000 + h * 3600000 + m * 60000 \<le> diff
     \<and> diff < d * 86400000 + h * 3600000 + m * 60000 + 60000"
proof -
  define r where "r = diff - d * 86400000"
  define r' where "r' = r - h * 3600000"
  have d: "d = diff div 86400000"
    using assms(2) by (auto simp: elapsed_parts_def Let_def)
  have h: "h = r div 3600000"
    using assms(2) by (auto simp: elapsed_parts_def Let_def r_def)
  have m: "m = r' div 60000"
    using assms(2) by (auto simp: elapsed_parts_def Let_def r_def r'_def)
  have r: "r = diff mod 86400000"
    unfolding r_def d by (simp add: minus_div_mult_eq_mod)
  have r'': "r' = r mod 3600000"
    unfolding r'_def h by (simp add: minus_div_mult_eq_mod)
  have rb: "0 \<le> r" "r < 86400000" unfolding r by simp_all
  have r'b: "0 \<le> r'" "r' < 3600000" unfolding r'' by simp_all
  have m_eq: "r' = m * 60000 + r' mod 60000"
    unfolding m by simp
  have mb: "0 \<le> r' mod 60000" "r' mod 60000 < 60000" by simp_all
  have d0: "0 \<le> d" unfolding d using assms(1) by (simp add: pos_imp_zdiv_nonneg_iff)
  have h0: "0 \<le> h" unfolding h using rb by (simp add: pos_imp_zdiv_nonneg_iff)
  have m0: "0 \<le> m" unfolding m using r'b by (simp add: pos_imp_zdiv_nonneg_iff)
  show ?thesis
    using d0 h0 m0 rb r'b m_eq mb unfolding r'_def r_def by auto
qed

lemmas date_eval =
  calcElapsedTime_def Date_local_def digit_of_def days_in_month_def leap_year_def
  days_from_civil_def string_of_int_def string_of_nat.simps

text \<open>
  C5. When both date strings parse, \<open>calcElapsedTime\<close> gives the dash if the end is not
  strictly after the start, and otherwise the difference split into whole days, whole
  hours of the rest and whole minutes of the rest (none negative, hours below 24,
  minutes below 60, together within a minute of the difference), the components that
  are not zero joined by spaces with the letters d, h and m, or \<open>< 1m\<close> when all are
  zero. A time that is absent is read as \<open>00:00\<close>. From 2024-06-01 07:00 to 2024-06-15
  14:30 it gives \<open>14d 7h 30m\<close>, and from 10:00 to 09:00 of one day the dash, in any
  zone whose offset stays the same.
\<close>

theorem calcElapsedTime_duration:
  assumes "parse (template sd @ ''T'' @ timeOrMidnight st) = Some s"
    and "parse (template ed @ ''T'' @ timeOrMidnight et) = Some e"
  shows "calcElapsedTime parse sd st ed et =
           (if e \<le> s then dash else elapsed_format (elapsed_parts (e - s)))
       \<and> (s < e \<longrightarrow> (case elapsed_parts (e - s) of (d, h, m) \<Rightarrow>
             0 \<le> d \<and> 0 \<le> h \<and> h < 24 \<and> 0 \<le> m \<and> m < 60
           \<and> d * 86400000 + h * 3600000 + m * 60000 \<le> e - s
           \<and> e - s < d * 86400000 + h * 3600000 + m * 60000 + 60000))
       \<and> calcElapsedTime parse sd None ed None
           = calcElapsedTime parse sd (Some ''00:00'') ed (Some ''00:00'')
       \<and> calcElapsedTime (Date_local offset) (Some ''2024-06-01'') (Some ''07:00'')
             (Some ''2024-06-15'') (Some ''14:30'') = ''14d 7h 30m''
       \<and> calcElapsedTime (Date_local offset) (Some ''2024-06-01'') (Some ''10:00'')
             (Some ''2024-06-01'') (Some ''09:00'') = dash"
proof -
  have a: "calcElapsedTime parse sd st ed et =
           (if e \<le> s then dash else elapsed_format (elapsed_parts (e - s)))"
    using assms by (rule calcElapsedTime_valid)
  have b: "s < e \<longrightarrow> (case elapsed_parts (e - s) of (d, h, m) \<Rightarrow>
             0 \<le> d \<and> 0 \<le> h \<and> h < 24 \<and> 0 \<le> m \<and> m < 60
           \<and> d * 86400000 + h * 3600000 + m * 60000 \<le> e - s
           \<and> e - s < d * 86400000 + h * 3600000 + m * 60000 + 60000)"
  proof
    assume "s < e"
    then have pos: "0 < e - s" by simp
    obtain d h m where p: "elapsed_parts (e - s) = (d, h, m)"
      by (cases "elapsed_parts (e - s)")
    from elapsed_parts_bounds [OF pos p] show "case elapsed_parts (e - s) of (d, h, m) \<Rightarrow>
             0 \<le> d \<and> 0 \<le> h \<and> h < 24 \<and> 0 \<le> m \<and> m < 60
           \<and> d * 86400000 + h * 3600000 + m * 60000 \<le> e - s
           \<and> e - s < d * 86400000 + h * 3600000 + m * 60000 + 60000"
      by (simp add: p)
  qed
  have c: "calcElapsedTime parse sd None ed None
           = calcElapsedTime parse sd (Some ''00:00'') ed (Some ''00:00'')"
    by (simp add: calcElapsedTime_def)
  have d: "calcElapsedTime (Date_local offset) (Some ''2024-06-01'') (Some ''07:00'')
             (Some ''2024-06-15'') (Some ''14:30'') = ''14d 7h 30m''"
    by (simp add: date_eval)
  have e: "calcElapsedTime (Date_local offset) (Some ''2024-06-01'') (Some ''10:00'')
             (Some ''2024-06-01'') (Some ''09:00'') = dash"
    by (simp add: date_eval)
  from a b c d e show ?thesis by blast
qed

theorem calcElapsedTime_duration_witness:
  "Date_local 0 (template (Some ''2024-06-01'') @ ''T'' @ timeOrMidnight (Some ''23:59''))
     = Some 1717286340000
   \<and> Date_local 0 (template (Some ''2024-06-02'') @ ''T'' @ timeOrMidnight None)
     = Some 1717286400000
   \<and> (1717286340000 :: int) < 1717286400000
   \<and> elapsed_parts (1717286400000 - 1717286340000) = (0, 0, 1)
   \<and> calcElapsedTime (Date_local 0) (Some ''2024-06-01'') (Some ''23:59'')
        (Some ''2024-06-02'') None = ''1m''"
proof -
  have s: "Date_local 0 (template (Some ''2024-06-01'') @ ''T'' @ timeOrMidnight (Some ''23:59''))
     = Some 1717286340000"
    by (simp add: date_eval)
  have e: "Date_local 0 (template (Some ''2024-06-02'') @ ''T'' @ timeOrMidnight None)
     = Some 1717286400000"
    by (simp add: date_eval)
  have p: "elapsed_parts (1717286400000 - 1717286340000) = (0, 0, 1)"
    by (simp add: elapsed_parts_def)
  have f: "elapsed_format (0, 0, 1) = ''1m''"
    by (simp add: elapsed_format_def string_of_int_def string_of_nat.simps)
  from calcElapsedTime_duration [OF s e, of 0] s e p f show ?thesis
    by simp
qed

text \<open>
  C6. When the start or the end string is not a date the runtime can read, the
  \<open>Date\<close> is invalid, the difference is NaN, and \<open>calcElapsedTime\<close> returns \<open>< 1m\<close>,
  which is not the dash it returns for an end that is not after the start.
\<close>

theorem calcElapsedTime_invalid_date:
  assumes "parse (template sd @ ''T'' @ timeOrMidnight st) = None
         \<or> parse (template ed @ ''T'' @ timeOrMidnight et) = None"
  shows "calcElapsedTime parse sd st ed et = ''< 1m''
       \<and> calcElapsedTime parse sd st ed et \<noteq> dash"
  using assms by (auto simp: calcElapsedTime_def Let_def dash_def)

theorem calcElapsedTime_invalid_date_witness:
  "Date_local 0 (template (Some ''not-a-date'') @ ''T'' @ timeOrMidnight (Some ''07:00'')) = None
   \<and> calcElapsedTime (Date_local 0) (Some ''not-a-date'') (Some ''07:00'')
        (Some ''2024-06-15'') (Some ''14:30'') = ''< 1m''
   \<and> calcElapsedTime (Date_local 0) (Some ''not-a-date'') (Some ''07:00'')
        (Some ''2024-06-15'') (Some ''14:30'') \<noteq> dash"
proof -
  have n: "Date_local 0 (template (Some ''not-a-date'') @ ''T'' @ timeOrMidnight (Some ''07:00''))
      = None"
    by (simp add: Date_local_def)
  from calcElapsedTime_invalid_date [of "Date_local 0" "Some ''not-a-date''" "Some ''07:00''"
      "Some ''2024-06-15''" "Some ''14:30''"] n
  show ?thesis by blast
qed

section \<open>Properties of the geometry functions\<close>

lemma addGain_segmentGain:
  "addGain (elem p 2) (elem q 2) g = g + segmentGain p q"
  by (cases "elem p 2"; cases "elem q 2") (auto simp: segmentGain_def)

lemma item_not_nullish: "\<not> nullish v \<Longrightarrow> item v i = Ret (elem v i)"
  by (simp add: item_def)

lemma gainLoop_climbs:
  assumes "\<forall>p \<in> set ps. \<not> nullish p" and "k < length ps"
  shows "gainLoop (JArr ps) [Suc k ..< length ps] g = Ret (g + climbs (drop k ps))"
  using assms(2)
proof (induction "length ps - k" arbitrary: k g)
  case 0
  then show ?case by simp
next
  case (Suc m)
  show ?case
  proof (cases "Suc k < length ps")
    case False
    with Suc.prems have "drop k ps = [ps ! k]"
      by (metis Cons_nth_drop_Suc drop_all not_less)
    with False show ?thesis by simp
  next
    case True
    have d: "drop k ps = ps ! k # ps ! Suc k # drop (Suc (Suc k)) ps"
      using True Suc.prems by (simp add: Cons_nth_drop_Suc)
    have d': "drop (Suc k) ps = ps ! Suc k # drop (Suc (Suc k)) ps"
      using True by (simp add: Cons_nth_drop_Suc)
    have nn: "\<not> nullish (ps ! k)" "\<not> nullish (ps ! Suc k)"
      using assms(1) True Suc.prems by auto
    have IH: "gainLoop (JArr ps) [Suc (Suc k) ..< length ps] (g + segmentGain (ps ! k) (ps ! Suc k))
        = Ret (g + segmentGain (ps ! k) (ps ! Suc k) + climbs (drop (Suc k) ps))"
      using Suc.hyps True by (intro Suc.hyps(1)) auto
    have "gainLoop (JArr ps) [Suc k ..< length ps] g
        = gainLoop (JArr ps) (Suc k # [Suc (Suc k) ..< length ps]) g"
      using True by (simp only: upt_conv_Cons)
    also have "\<dots> = gainLoop (JArr ps) [Suc (Suc k) ..< length ps]
        (g + segmentGain (ps ! k) (ps ! Suc k))"
      using True Suc.prems nn by (simp add: item_not_nullish addGain_segmentGain)
    also note IH
    finally show ?thesis by (simp add: d d')
  qed
qed

lemma indices_length: "indices (real n) = [1 ..< n]"
  by (simp add: indices_def)

lemma climbs_short: "length ps < 2 \<Longrightarrow> climbs ps = 0"
  by (cases ps rule: climbs.cases) auto

lemma calcElevationGain_short: "length ps < 2 \<Longrightarrow> calcElevationGain (JArr ps) = Ret 0"
  by (simp add: calcElevationGain_def)

lemma calcElevationGain_climbs:
  assumes "\<forall>p \<in> set ps. \<not> nullish p"
  shows "calcElevationGain (JArr ps) = Ret (Math_round ((climbs ps * 3.28084) / 10) * 10)"
proof (cases "length ps < 2")
  case True
  then show ?thesis by (simp add: calcElevationGain_short climbs_short Math_round_def)
next
  case False
  then have "gainLoop (JArr ps) [Suc 0 ..< length ps] 0 = Ret (0 + climbs (drop 0 ps))"
    using assms by (intro gainLoop_climbs) auto
  with False show ?thesis
    by (simp add: calcElevationGain_def indices_length)
qed

lemma segmentGain_nonneg: "0 \<le> segmentGain p q"
  by (cases "elem p 2"; cases "elem q 2") (auto simp: segmentGain_def)

lemma climbs_nonneg: "0 \<le> climbs ps"
  by (induction ps rule: climbs.induct) (auto simp: segmentGain_nonneg)

lemma climbs_append: "climbs (ps @ [p]) = climbs ps + (if ps = [] then 0 else segmentGain (last ps) p)"
  by (induction ps rule: climbs.induct) auto

lemma climbs_append_mono: "climbs ps \<le> climbs (ps @ [p])"
  by (simp add: climbs_append segmentGain_nonneg)

lemma Math_round_mono: "x \<le> y \<Longrightarrow> Math_round x \<le> Math_round y"
  by (simp add: Math_round_def floor_mono)

lemma Math_round_near: "\<bar>Math_round x - x\<bar> \<le> 1 / 2"
  unfolding Math_round_def by linarith

lemma round10_near: "\<bar>Math_round (x / 10) * 10 - x\<bar> \<le> 5"
  using Math_round_near [of "x / 10"] by (simp add: abs_le_iff field_simps)

lemma cos_cos_hav:
  fixes x y :: real
  shows "cos x * cos y = (cos ((x + y) / 2))\<^sup>2 - (sin ((y - x) / 2))\<^sup>2"
proof -
  have e1: "2 * ((x - y) / 2) = x - y" and e2: "2 * ((x + y) / 2) = x + y"
    by simp_all
  have 1: "cos (x - y) = 1 - 2 * (sin ((x - y) / 2))\<^sup>2"
    using cos_double_sin [of "(x - y) / 2"] unfolding e1 .
  have 2: "cos (x + y) = 2 * (cos ((x + y) / 2))\<^sup>2 - 1"
    using cos_double_cos [of "(x + y) / 2"] unfolding e2 .
  have 3: "(sin ((x - y) / 2))\<^sup>2 = (sin ((y - x) / 2))\<^sup>2"
  proof -
    have "(x - y) / 2 = - ((y - x) / 2)" by (simp add: field_simps)
    then have "sin ((x - y) / 2) = - sin ((y - x) / 2)"
      by (metis sin_minus)
    then show ?thesis by simp
  qed
  show ?thesis
    unfolding cos_times_cos 1 2 3 by (simp add: field_simps)
qed

lemma hav_range:
  fixes x y d :: real
  defines "a \<equiv> (sin ((y - x) / 2))\<^sup>2 + cos x * cos y * (sin (d / 2))\<^sup>2"
  shows "0 \<le> a" and "a \<le> 1"
proof -
  define A where "A = (sin ((y - x) / 2))\<^sup>2"
  define B where "B = (cos ((x + y) / 2))\<^sup>2"
  define s where "s = (sin (d / 2))\<^sup>2"
  have A: "0 \<le> A" "A \<le> 1" unfolding A_def by (simp_all add: abs_square_le_1)
  have B: "0 \<le> B" "B \<le> 1" unfolding B_def by (simp_all add: abs_square_le_1)
  have s: "0 \<le> s" "s \<le> 1" unfolding s_def by (simp_all add: abs_square_le_1)
  have a: "a = A * (1 - s) + B * s"
    unfolding a_def cos_cos_hav A_def B_def s_def by (simp add: algebra_simps)
  have "0 \<le> A * (1 - s)" "0 \<le> B * s" using A B s by simp_all
  then show "0 \<le> a" unfolding a by simp
  have "A * (1 - s) \<le> 1 * (1 - s)" using A s by (intro mult_right_mono) simp_all
  moreover have "B * s \<le> 1 * s" using B s by (intro mult_right_mono) simp_all
  ultimately show "a \<le> 1" unfolding a by simp
qed

lemma Math_atan2_sqrt:
  assumes "0 \<le> a" "a \<le> 1"
  shows "Math_atan2 (sqrt a) (sqrt (1 - a)) = arcsin (sqrt a)"
proof (cases "a = 1")
  case True
  then show ?thesis by (simp add: Math_atan2_def)
next
  case False
  with assms have lt: "a < 1" by simp
  then have pos: "0 < sqrt (1 - a)" by simp
  have u: "- 1 < sqrt a" "sqrt a < 1"
    using assms lt by (simp_all add: less_le_trans [of "-1" 0] real_sqrt_lt_1_iff)
  have "arcsin (sqrt a) = arctan (sqrt a / sqrt (1 - (sqrt a)\<^sup>2))"
    using u by (rule arcsin_arctan)
  also have "(sqrt a)\<^sup>2 = a" using assms by simp
  finally show ?thesis using pos by (simp add: Math_atan2_def)
qed

lemma toRad_diff: "toRad (b - a) = toRad b - toRad a"
  by (simp add: toRad_def algebra_simps diff_divide_distrib)

lemma coord_numeric:
  "elem p i = JNum x \<Longrightarrow> coord p i = Ret x"
  by (cases p) (auto simp: coord_def item_def)

lemma haversineDistance_numbers:
  assumes "elem p 0 = JNum x1" "elem p 1 = JNum y1" "elem q 0 = JNum x2" "elem q 1 = JNum y2"
  shows "haversineDistance p q = Ret (greatCircle x1 y1 x2 y2)"
proof -
  define a where "a = (sin ((toRad y2 - toRad y1) / 2))\<^sup>2
      + cos (toRad y1) * cos (toRad y2) * (sin ((toRad x2 - toRad x1) / 2))\<^sup>2"
  have r: "0 \<le> a" "a \<le> 1"
    unfolding a_def by (rule hav_range)+
  have s1: "Math_sqrt a = Ret (sqrt a)" using r by (simp add: Math_sqrt_def)
  have s2: "Math_sqrt (1 - a) = Ret (sqrt (1 - a))" using r by (simp add: Math_sqrt_def)
  have "haversineDistance p q = Ret (3958.8 * 2 * Math_atan2 (sqrt a) (sqrt (1 - a)))"
    unfolding haversineDistance_def coord_numeric [OF assms(1)] coord_numeric [OF assms(2)]
      coord_numeric [OF assms(3)] coord_numeric [OF assms(4)] bind_res.simps Let_def toRad_diff
      a_def [symmetric] s1 s2 ..
  also have "Math_atan2 (sqrt a) (sqrt (1 - a)) = arcsin (sqrt a)"
    using r by (rule Math_atan2_sqrt)
  finally show ?thesis
    by (simp add: greatCircle_def hav_def radians_def toRad_def a_def)
qed

lemma numeric_pointE:
  assumes "numeric_point p"
  obtains x y where "elem p 0 = JNum x" "elem p 1 = JNum y"
  using assms by (auto simp: numeric_point_def split: jsval.splits)

lemma haversineDistance_points:
  assumes "numeric_point p" "numeric_point q"
  shows "haversineDistance p q = Ret (distanceBetween p q)"
proof -
  from assms(1) obtain x1 y1 where p: "elem p 0 = JNum x1" "elem p 1 = JNum y1"
    by (rule numeric_pointE)
  from assms(2) obtain x2 y2 where q: "elem q 0 = JNum x2" "elem q 1 = JNum y2"
    by (rule numeric_pointE)
  show ?thesis
    using haversineDistance_numbers [OF p q] p q
    by (simp add: distanceBetween_def lon_def lat_def)
qed

lemma distanceLoop_trackLength:
  assumes "\<forall>p \<in> set ps. numeric_point p" and "k < length ps"
  shows "distanceLoop (JArr ps) [Suc k ..< length ps] t = Ret (t + trackLength (drop k ps))"
  using assms(2)
proof (induction "length ps - k" arbitrary: k t)
  case 0
  then show ?case by simp
next
  case (Suc m)
  show ?case
  proof (cases "Suc k < length ps")
    case False
    with Suc.prems have "drop k ps = [ps ! k]"
      by (metis Cons_nth_drop_Suc drop_all not_less)
    with False show ?thesis by simp
  next
    case True
    have d: "drop k ps = ps ! k # ps ! Suc k # drop (Suc (Suc k)) ps"
      using True Suc.prems by (simp add: Cons_nth_drop_Suc)
    have d': "drop (Suc k) ps = ps ! Suc k # drop (Suc (Suc k)) ps"
      using True by (simp add: Cons_nth_drop_Suc)
    have np: "numeric_point (ps ! k)" "numeric_point (ps ! Suc k)"
      using assms(1) True Suc.prems by auto
    have IH: "distanceLoop (JArr ps) [Suc (Suc k) ..< length ps]
          (t + distanceBetween (ps ! k) (ps ! Suc k))
        = Ret (t + distanceBetween (ps ! k) (ps ! Suc k) + trackLength (drop (Suc k) ps))"
      using Suc.hyps True by (intro Suc.hyps(1)) auto
    have "distanceLoop (JArr ps) [Suc k ..< length ps] t
        = distanceLoop (JArr ps) (Suc k # [Suc (Suc k) ..< length ps]) t"
      using True by (simp only: upt_conv_Cons)
    also have "\<dots> = distanceLoop (JArr ps) [Suc (Suc k) ..< length ps]
        (t + distanceBetween (ps ! k) (ps ! Suc k))"
      using True Suc.prems by (simp add: haversineDistance_points [OF np])
    also note IH
    finally show ?thesis by (simp add: d d')
  qed
qed

lemma calcDistance_short: "length ps < 2 \<Longrightarrow> calcDistance (JArr ps) = Ret 0"
  by (simp add: calcDistance_def)

lemma trackLength_short: "length ps < 2 \<Longrightarrow> trackLength ps = 0"
  by (cases ps rule: trackLength.cases) auto

lemma calcDistance_trackLength:
  assumes "\<forall>p \<in> set ps. numeric_point p"
  shows "calcDistance (JArr ps) = Ret (Math_round (trackLength ps * 10) / 10)"
proof (cases "length ps < 2")
  case True
  then show ?thesis by (simp add: calcDistance_short trackLength_short Math_round_def)
next
  case False
  then have "distanceLoop (JArr ps) [Suc 0 ..< length ps] 0 = Ret (0 + trackLength (drop 0 ps))"
    using assms by (intro distanceLoop_trackLength) auto
  with False show ?thesis
    by (simp add: calcDistance_def indices_length)
qed



text \<open>
  C3. On a track whose entries are not \<open>null\<close>, \<open>calcElevationGain\<close> returns the sum of
  the rises between consecutive points that both carry a numeric third element
  (\<open>climbs\<close>: a descent or a missing elevation adds nothing), times 3.28084, rounded to
  a multiple of 10 at most 5 away. It returns 0 on every track of fewer than two points,
  and 920 on the track of the example.
\<close>

theorem calcElevationGain_track:
  assumes "\<forall>p \<in> set ps. \<not> nullish p"
  shows "calcElevationGain (JArr ps) = Ret (Math_round ((climbs ps * 3.28084) / 10) * 10)
       \<and> (\<exists>k :: int. Math_round ((climbs ps * 3.28084) / 10) * 10 = 10 * of_int k)
       \<and> \<bar>Math_round ((climbs ps * 3.28084) / 10) * 10 - climbs ps * 3.28084\<bar> \<le> 5
       \<and> (length qs < 2 \<longrightarrow> calcElevationGain (JArr qs) = Ret 0)
       \<and> calcElevationGain (JArr
             [JArr [JNum (-118.2923), JNum 36.5785, JNum 2100],
              JArr [JNum (-118.2901), JNum 36.5712, JNum 2210],
              JArr [JNum (-118.2876), JNum 36.5648, JNum 2380]]) = Ret 920"
proof -
  have a: "calcElevationGain (JArr ps) = Ret (Math_round ((climbs ps * 3.28084) / 10) * 10)"
    using assms by (rule calcElevationGain_climbs)
  have b: "\<exists>k :: int. Math_round ((climbs ps * 3.28084) / 10) * 10 = 10 * of_int k"
    by (auto simp: Math_round_def)
  have c: "\<bar>Math_round ((climbs ps * 3.28084) / 10) * 10 - climbs ps * 3.28084\<bar> \<le> 5"
    by (rule round10_near)
  have d: "length qs < 2 \<longrightarrow> calcElevationGain (JArr qs) = Ret 0"
    by (simp add: calcElevationGain_short)
  have e: "calcElevationGain (JArr
             [JArr [JNum (-118.2923), JNum 36.5785, JNum 2100],
              JArr [JNum (-118.2901), JNum 36.5712, JNum 2210],
              JArr [JNum (-118.2876), JNum 36.5648, JNum 2380]]) = Ret 920"
    by (simp add: calcElevationGain_def indices_def Math_round_def upt_conv_Cons item_def)
  from a b c d e show ?thesis by blast
qed

theorem calcElevationGain_track_witness:
  "list_all (\<lambda>p. \<not> nullish p)
       [JArr [JNum 0, JNum 0, JNum 100], JArr [JNum 0, JNum 0, JNum 90],
        JArr [JNum 0, JNum 0], JArr [JNum 0, JNum 0, JNum 95], JArr [JNum 0, JNum 0, JNum 200]]
   \<and> calcElevationGain (JArr [JArr [JNum 0, JNum 0, JNum 100], JArr [JNum 0, JNum 0, JNum 90],
        JArr [JNum 0, JNum 0], JArr [JNum 0, JNum 0, JNum 95], JArr [JNum 0, JNum 0, JNum 200]])
       = Ret 340
   \<and> length [JArr [JNum 0, JNum 0, JNum 100]] < 2
   \<and> calcElevationGain (JArr [JArr [JNum 0, JNum 0, JNum 100]]) = Ret 0"
proof -
  let ?ps = "[JArr [JNum 0, JNum 0, JNum 100], JArr [JNum 0, JNum 0, JNum 90],
        JArr [JNum 0, JNum 0], JArr [JNum 0, JNum 0, JNum 95], JArr [JNum 0, JNum 0, JNum 200]]"
  have h: "\<forall>p \<in> set ?ps. \<not> nullish p" by simp
  have c: "climbs ?ps = 105" by (simp add: segmentGain_def)
  have r: "Math_round ((105 * 3.28084) / 10) * 10 = 340" by (simp add: Math_round_def)
  from calcElevationGain_track [OF h, where qs = "[JArr [JNum 0, JNum 0, JNum 100]]"]
  show ?thesis unfolding c r by simp
qed

text \<open>
  C9. Appending a point to a track never lowers the result of \<open>calcElevationGain\<close>,
  rounding included (track entries and the new point not \<open>null\<close>).
\<close>

theorem calcElevationGain_append_mono:
  assumes "\<forall>q \<in> set ps. \<not> nullish q" and "\<not> nullish p"
  shows "\<exists>g g'. calcElevationGain (JArr ps) = Ret g
            \<and> calcElevationGain (JArr (ps @ [p])) = Ret g' \<and> g \<le> g'"
  using assms
  by (simp add: calcElevationGain_climbs Math_round_mono climbs_append_mono)

theorem calcElevationGain_append_mono_witness:
  "list_all (\<lambda>q. \<not> nullish q)
       [JArr [JNum 0, JNum 0, JNum 100], JArr [JNum 0, JNum 0, JNum 104]]
   \<and> \<not> nullish (JArr [JNum 0, JNum 0, JNum 50])
   \<and> (\<exists>g g'. calcElevationGain
            (JArr [JArr [JNum 0, JNum 0, JNum 100], JArr [JNum 0, JNum 0, JNum 104]]) = Ret g
        \<and> calcElevationGain
            (JArr ([JArr [JNum 0, JNum 0, JNum 100], JArr [JNum 0, JNum 0, JNum 104]]
              @ [JArr [JNum 0, JNum 0, JNum 50]])) = Ret g'
        \<and> g \<le> g')
   \<and> calcElevationGain (JArr [JArr [JNum 0, JNum 0, JNum 100], JArr [JNum 0, JNum 0, JNum 104]])
       = Ret 10
   \<and> calcElevationGain (JArr ([JArr [JNum 0, JNum 0, JNum 100], JArr [JNum 0, JNum 0, JNum 104]]
         @ [JArr [JNum 0, JNum 0, JNum 50]])) = Ret 10"
proof -
  let ?ps = "[JArr [JNum 0, JNum 0, JNum 100], JArr [JNum 0, JNum 0, JNum 104]]"
  let ?p = "JArr [JNum 0, JNum 0, JNum 50]"
  have h: "\<forall>q \<in> set ?ps. \<not> nullish q" and h': "\<not> nullish ?p" by simp_all
  have a: "calcElevationGain (JArr ?ps) = Ret 10"
    by (simp add: calcElevationGain_def indices_def Math_round_def upt_conv_Cons item_def)
  have b: "calcElevationGain (JArr (?ps @ [?p])) = Ret 10"
    by (simp add: calcElevationGain_def indices_def Math_round_def upt_conv_Cons item_def)
  have l: "list_all (\<lambda>q. \<not> nullish q) ?ps" by simp
  from calcElevationGain_append_mono [OF h h'] a b l h' show ?thesis by blast
qed



section \<open>Properties of the track extraction\<close>

lemma field_JStr_truthy: "field g name = JStr s \<Longrightarrow> truthy g"
  by (cases g) (auto split: if_splits)

lemma extractCoordsFromGeometry_LineString:
  assumes "field g ''type'' = JStr ''LineString''" and "field g ''coordinates'' = JArr ps"
  shows "extractCoordsFromGeometry g = Ret (JArr ps)"
  using assms field_JStr_truthy [OF assms(1)]
  by (simp add: extractCoordsFromGeometry_def or_else_def)

lemma concat_flat_item: "concat (map (flat_item \<circ> JArr) paths) = concat paths"
  by (induction paths) auto

lemma extractCoordsFromGeometry_MultiLineString:
  assumes "field g ''type'' = JStr ''MultiLineString''"
    and "field g ''coordinates'' = JArr (map JArr paths)"
  shows "extractCoordsFromGeometry g = Ret (JArr (concat paths))"
  using assms field_JStr_truthy [OF assms(1)]
  by (simp add: extractCoordsFromGeometry_def or_else_def concat_flat_item)

lemma extractCoordsFromGeometry_other:
  assumes "field g ''type'' \<noteq> JStr ''LineString''"
    and "field g ''type'' \<noteq> JStr ''MultiLineString''"
  shows "extractCoordsFromGeometry g = Ret (JArr [])"
  using assms by (simp add: extractCoordsFromGeometry_def)

lemma extractCoordsFromGeometry_falsy:
  "\<not> truthy g \<Longrightarrow> extractCoordsFromGeometry g = Ret (JArr [])"
  by (simp add: extractCoordsFromGeometry_def)

lemma featureCoords_geometry:
  "\<not> nullish x \<Longrightarrow> featureCoords x = extractCoordsFromGeometry (field x ''geometry'')"
  by (simp add: featureCoords_def member_def)

lemma scanFeatures_first:
  assumes "\<forall>x \<in> set pre. featureCoords x = Ret (JArr [])"
    and "featureCoords f = Ret (JArr (p # ps))"
  shows "scanFeatures (pre @ f # post) = Ret (Some (JArr (p # ps)))"
  using assms by (induction pre) auto

lemma scanFeatures_none:
  assumes "\<forall>x \<in> set fs. featureCoords x = Ret (JArr [])"
  shows "scanFeatures fs = Ret None"
  using assms by (induction fs) auto

lemma extractCoords_collection_first:
  assumes "field g ''type'' = JStr ''FeatureCollection''"
    and "or_else (field g ''features'') (JArr []) = JArr (pre @ f # post)"
    and "\<forall>x \<in> set pre. featureCoords x = Ret (JArr [])"
    and "featureCoords f = Ret (JArr (p # ps))"
  shows "extractCoords g = Ret (JArr (p # ps))"
  using field_JStr_truthy [OF assms(1)] assms(1,2) scanFeatures_first [OF assms(3,4)]
  by (simp add: extractCoords_def)

lemma extractCoords_collection_none:
  assumes "field g ''type'' = JStr ''FeatureCollection''"
    and "or_else (field g ''features'') (JArr []) = JArr fs"
    and "\<forall>x \<in> set fs. featureCoords x = Ret (JArr [])"
  shows "extractCoords g = Ret (JArr [])"
  using field_JStr_truthy [OF assms(1)] assms(1,2) scanFeatures_none [OF assms(3)]
  by (simp add: extractCoords_def extractCoordsFromGeometry_def)

lemma extractCoords_feature:
  assumes "field g ''type'' = JStr ''Feature''"
  shows "extractCoords g = extractCoordsFromGeometry (field g ''geometry'')"
  using field_JStr_truthy [OF assms] assms by (simp add: extractCoords_def)

lemma extractCoords_geometry:
  assumes "truthy g" and "field g ''type'' \<noteq> JStr ''FeatureCollection''"
    and "field g ''type'' \<noteq> JStr ''Feature''"
  shows "extractCoords g = extractCoordsFromGeometry g"
  using assms by (simp add: extractCoords_def)


text \<open>
  C7. \<open>extractCoords\<close> on a feature collection returns the coordinates of the first
  feature whose geometry gives a non-empty array, whatever follows it, and the empty
  array when every feature gives the empty array; on a feature it is
  \<open>extractCoordsFromGeometry\<close> of its geometry, on any other truthy value
  \<open>extractCoordsFromGeometry\<close> of the value itself. A \<open>LineString\<close> gives its coordinate
  array as it is, a \<open>MultiLineString\<close> the concatenation of its paths in order, and every
  other kind, \<open>null\<close> and \<open>undefined\<close> give the empty array without an exception.
\<close>

theorem extractCoords_dispatch:
  "(field c ''type'' = JStr ''FeatureCollection''
      \<and> or_else (field c ''features'') (JArr []) = JArr (pre @ f # post)
      \<and> (\<forall>x \<in> set pre. featureCoords x = Ret (JArr []))
      \<and> featureCoords f = Ret (JArr (p # ps))
      \<longrightarrow> extractCoords c = Ret (JArr (p # ps)))
   \<and> (field e ''type'' = JStr ''FeatureCollection''
      \<and> or_else (field e ''features'') (JArr []) = JArr fs
      \<and> (\<forall>x \<in> set fs. featureCoords x = Ret (JArr []))
      \<longrightarrow> extractCoords e = Ret (JArr []))
   \<and> (\<not> nullish y \<longrightarrow> featureCoords y = extractCoordsFromGeometry (field y ''geometry''))
   \<and> (field s ''type'' = JStr ''Feature''
      \<longrightarrow> extractCoords s = extractCoordsFromGeometry (field s ''geometry''))
   \<and> (truthy b \<and> field b ''type'' \<noteq> JStr ''FeatureCollection''
      \<and> field b ''type'' \<noteq> JStr ''Feature''
      \<longrightarrow> extractCoords b = extractCoordsFromGeometry b)
   \<and> (field l ''type'' = JStr ''LineString'' \<and> field l ''coordinates'' = JArr path
      \<longrightarrow> extractCoordsFromGeometry l = Ret (JArr path))
   \<and> (field m ''type'' = JStr ''MultiLineString''
      \<and> field m ''coordinates'' = JArr (map JArr paths)
      \<longrightarrow> extractCoordsFromGeometry m = Ret (JArr (concat paths)))
   \<and> (field k ''type'' \<noteq> JStr ''LineString'' \<and> field k ''type'' \<noteq> JStr ''MultiLineString''
      \<longrightarrow> extractCoordsFromGeometry k = Ret (JArr []))
   \<and> extractCoordsFromGeometry JNull = Ret (JArr [])
   \<and> extractCoordsFromGeometry JUndefined = Ret (JArr [])"
  using extractCoords_collection_first [of c pre f post p ps]
    extractCoords_collection_none [of e fs]
    featureCoords_geometry [of y]
    extractCoords_feature [of s]
    extractCoords_geometry [of b]
    extractCoordsFromGeometry_LineString [of l path]
    extractCoordsFromGeometry_MultiLineString [of m paths]
    extractCoordsFromGeometry_other [of k]
    extractCoordsFromGeometry_falsy [of JNull]
    extractCoordsFromGeometry_falsy [of JUndefined]
  by simp

theorem extractCoords_dispatch_witness:
  "extractCoords (JObj [(''type'', JStr ''FeatureCollection''), (''features'', JArr
       [JObj [(''type'', JStr ''Feature''), (''geometry'', JNull)],
        JObj [(''type'', JStr ''Feature''),
              (''geometry'', JObj [(''type'', JStr ''Point''), (''coordinates'', JArr [JNum 1, JNum 2])])],
        JObj [(''type'', JStr ''Feature''),
              (''geometry'', JObj [(''type'', JStr ''LineString''),
                 (''coordinates'', JArr [JArr [JNum 1, JNum 2], JArr [JNum 1, JNum 3]])])],
        JObj [(''type'', JStr ''Feature''),
              (''geometry'', JObj [(''type'', JStr ''LineString''),
                 (''coordinates'', JArr [JArr [JNum 5, JNum 6], JArr [JNum 7, JNum 8]])])]])])
     = Ret (JArr [JArr [JNum 1, JNum 2], JArr [JNum 1, JNum 3]])
   \<and> extractCoords (JObj [(''type'', JStr ''FeatureCollection''), (''features'', JArr
       [JObj [(''type'', JStr ''Feature''), (''geometry'', JNull)]])]) = Ret (JArr [])
   \<and> extractCoords (JObj [(''type'', JStr ''Feature''),
         (''geometry'', JObj [(''type'', JStr ''MultiLineString''),
            (''coordinates'', JArr (map JArr [[JArr [JNum 1, JNum 2]], [JArr [JNum 3, JNum 4], JArr [JNum 5, JNum 6]]]))])])
     = Ret (JArr [JArr [JNum 1, JNum 2], JArr [JNum 3, JNum 4], JArr [JNum 5, JNum 6]])
   \<and> extractCoords (JObj [(''type'', JStr ''LineString''),
         (''coordinates'', JArr [JArr [JNum 1, JNum 2], JArr [JNum 1, JNum 3]])])
     = Ret (JArr [JArr [JNum 1, JNum 2], JArr [JNum 1, JNum 3]])
   \<and> extractCoordsFromGeometry (JObj [(''type'', JStr ''Polygon''), (''coordinates'', JArr [])])
     = Ret (JArr [])"
proof -
  let ?line = "JObj [(''type'', JStr ''LineString''),
                 (''coordinates'', JArr [JArr [JNum 1, JNum 2], JArr [JNum 1, JNum 3]])]"
  let ?line2 = "JObj [(''type'', JStr ''LineString''),
                 (''coordinates'', JArr [JArr [JNum 5, JNum 6], JArr [JNum 7, JNum 8]])]"
  let ?point = "JObj [(''type'', JStr ''Point''), (''coordinates'', JArr [JNum 1, JNum 2])]"
  let ?multi = "JObj [(''type'', JStr ''MultiLineString''),
            (''coordinates'', JArr (map JArr [[JArr [JNum 1, JNum 2]], [JArr [JNum 3, JNum 4], JArr [JNum 5, JNum 6]]]))]"
  let ?f0 = "JObj [(''type'', JStr ''Feature''), (''geometry'', JNull)]"
  let ?f1 = "JObj [(''type'', JStr ''Feature''), (''geometry'', ?point)]"
  let ?f2 = "JObj [(''type'', JStr ''Feature''), (''geometry'', ?line)]"
  let ?f3 = "JObj [(''type'', JStr ''Feature''), (''geometry'', ?line2)]"
  let ?fm = "JObj [(''type'', JStr ''Feature''), (''geometry'', ?multi)]"
  let ?c = "JObj [(''type'', JStr ''FeatureCollection''), (''features'', JArr [?f0, ?f1, ?f2, ?f3])]"
  let ?e = "JObj [(''type'', JStr ''FeatureCollection''), (''features'', JArr [?f0])]"
  let ?k = "JObj [(''type'', JStr ''Polygon''), (''coordinates'', JArr [])]"
  have g0: "extractCoordsFromGeometry JNull = Ret (JArr [])"
    and g1: "extractCoordsFromGeometry ?point = Ret (JArr [])"
    and g2: "extractCoordsFromGeometry ?line = Ret (JArr [JArr [JNum 1, JNum 2], JArr [JNum 1, JNum 3]])"
    by (simp_all add: extractCoordsFromGeometry_def or_else_def)
  have f0: "featureCoords ?f0 = Ret (JArr [])"
    and f1: "featureCoords ?f1 = Ret (JArr [])"
    and f2: "featureCoords ?f2 = Ret (JArr [JArr [JNum 1, JNum 2], JArr [JNum 1, JNum 3]])"
    by (simp_all add: featureCoords_def member_def g0 g1 g2)
  have pre: "\<forall>x \<in> set [?f0, ?f1]. featureCoords x = Ret (JArr [])"
    using f0 f1 by simp
  have all: "\<forall>x \<in> set [?f0]. featureCoords x = Ret (JArr [])"
    using f0 by simp
  have feats: "or_else (field ?c ''features'') (JArr []) = JArr ([?f0, ?f1] @ ?f2 # [?f3])"
    and feats': "or_else (field ?e ''features'') (JArr []) = JArr [?f0]"
    by (simp_all add: or_else_def)
  note t = extractCoords_dispatch [where c = ?c and pre = "[?f0, ?f1]" and f = ?f2
      and post = "[?f3]" and p = "JArr [JNum 1, JNum 2]" and ps = "[JArr [JNum 1, JNum 3]]"
      and e = ?e and fs = "[?f0]" and y = ?fm and s = ?fm and b = ?line and l = ?line
      and path = "[JArr [JNum 1, JNum 2], JArr [JNum 1, JNum 3]]" and m = ?multi
      and paths = "[[JArr [JNum 1, JNum 2]], [JArr [JNum 3, JNum 4], JArr [JNum 5, JNum 6]]]"
      and k = ?k]
  have 1: "extractCoords ?c = Ret (JArr [JArr [JNum 1, JNum 2], JArr [JNum 1, JNum 3]])"
    using t pre f2 feats by simp
  have 2: "extractCoords ?e = Ret (JArr [])"
    using t all feats' by simp
  have 3: "extractCoords ?fm
      = Ret (JArr [JArr [JNum 1, JNum 2], JArr [JNum 3, JNum 4], JArr [JNum 5, JNum 6]])"
    using t by simp
  have 4: "extractCoords ?line = Ret (JArr [JArr [JNum 1, JNum 2], JArr [JNum 1, JNum 3]])"
    using t by simp
  have 5: "extractCoordsFromGeometry ?k = Ret (JArr [])"
    using t by simp
  from 1 2 3 4 5 show ?thesis by simp
qed

section \<open>Properties of the per-day results\<close>

lemma numeric_point_not_nullish: "numeric_point p \<Longrightarrow> \<not> nullish p"
  by (cases p) (auto simp: numeric_point_def)

lemma is_path_flat:
  assumes "list_all is_path paths"
  shows "list_all numeric_point (concat (map flat_item paths))"
  using assms
proof (induction paths)
  case Nil
  then show ?case by simp
next
  case (Cons c cs)
  then show ?case by (cases c) (auto simp: is_path_def)
qed

lemma geometry_coords:
  assumes "\<not> truthy g \<or> is_geometry g"
  shows "\<exists>ps. extractCoordsFromGeometry g = Ret (JArr ps) \<and> list_all numeric_point ps"
proof (cases "truthy g")
  case False
  then show ?thesis by (simp add: extractCoordsFromGeometry_def)
next
  case True
  with assms have g: "is_geometry g" by simp
  then obtain kvs where kvs: "g = JObj kvs"
    by (cases g) (auto simp: is_geometry_def)
  consider (line) "field g ''type'' = JStr ''LineString''"
    | (multi) "field g ''type'' = JStr ''MultiLineString''"
    | (other) "field g ''type'' \<noteq> JStr ''LineString''" "field g ''type'' \<noteq> JStr ''MultiLineString''"
    by blast
  then show ?thesis
  proof cases
    case line
    with g kvs have "\<not> truthy (field g ''coordinates'') \<or> is_path (field g ''coordinates'')"
      by (simp add: is_geometry_def)
    then show ?thesis
      using line True
      by (cases "field g ''coordinates''")
         (auto simp: extractCoordsFromGeometry_def or_else_def is_path_def)
  next
    case multi
    with g kvs have c: "\<not> truthy (field g ''coordinates'')
        \<or> (case field g ''coordinates'' of JArr paths \<Rightarrow> list_all is_path paths | _ \<Rightarrow> False)"
      by (simp add: is_geometry_def)
    show ?thesis
    proof (cases "truthy (field g ''coordinates'')")
      case False
      then show ?thesis using multi True
        by (simp add: extractCoordsFromGeometry_def or_else_def)
    next
      case t: True
      with c obtain paths where p: "field g ''coordinates'' = JArr paths" "list_all is_path paths"
        by (cases "field g ''coordinates''") auto
      then show ?thesis using multi True is_path_flat [OF p(2)]
        by (simp add: extractCoordsFromGeometry_def or_else_def)
    qed
  next
    case other
    then show ?thesis by (simp add: extractCoordsFromGeometry_def)
  qed
qed

lemma feature_coords:
  assumes "is_feature f"
  shows "\<exists>ps. featureCoords f = Ret (JArr ps) \<and> list_all numeric_point ps"
proof -
  from assms obtain kvs where "f = JObj kvs"
    by (cases f) (auto simp: is_feature_def)
  then have "featureCoords f = extractCoordsFromGeometry (field f ''geometry'')"
    by (simp add: featureCoords_def member_def)
  moreover have "\<not> truthy (field f ''geometry'') \<or> is_geometry (field f ''geometry'')"
    using assms \<open>f = JObj kvs\<close> by (simp add: is_feature_def)
  ultimately show ?thesis using geometry_coords by simp
qed

lemma scan_coords:
  assumes "list_all is_feature fs"
  shows "scanFeatures fs = Ret None
       \<or> (\<exists>ps. scanFeatures fs = Ret (Some (JArr ps)) \<and> list_all numeric_point ps)"
  using assms
proof (induction fs)
  case Nil
  then show ?case by simp
next
  case (Cons f fs)
  then obtain ps where "featureCoords f = Ret (JArr ps)" "list_all numeric_point ps"
    using feature_coords [of f] by auto
  with Cons show ?case by auto
qed

lemma record_coords:
  assumes "track_record r"
  shows "\<exists>ps. extractCoords r = Ret (JArr ps) \<and> list_all numeric_point ps"
proof -
  from assms obtain kvs where kvs: "r = JObj kvs"
    by (cases r) (auto simp: track_record_def)
  then have t: "truthy r" by simp
  consider (coll) "field r ''type'' = JStr ''FeatureCollection''"
    | (feat) "field r ''type'' = JStr ''Feature''"
    | (geom) "field r ''type'' \<noteq> JStr ''FeatureCollection''" "field r ''type'' \<noteq> JStr ''Feature''"
    by blast
  then show ?thesis
  proof cases
    case coll
    have g: "extractCoordsFromGeometry r = Ret (JArr [])"
      using coll by (simp add: extractCoordsFromGeometry_def)
    from assms kvs coll have c: "\<not> truthy (field r ''features'')
        \<or> (case field r ''features'' of JArr fs \<Rightarrow> list_all is_feature fs | _ \<Rightarrow> False)"
      by (simp add: track_record_def)
    show ?thesis
    proof (cases "truthy (field r ''features'')")
      case False
      then show ?thesis using coll t g by (simp add: extractCoords_def or_else_def)
    next
      case True
      with c obtain fs where fs: "field r ''features'' = JArr fs" "list_all is_feature fs"
        by (cases "field r ''features''") auto
      from scan_coords [OF fs(2)] show ?thesis
        using coll t g fs(1) by (auto simp: extractCoords_def or_else_def)
    qed
  next
    case feat
    with assms kvs have "is_feature r" by (simp add: track_record_def)
    then have "\<not> truthy (field r ''geometry'') \<or> is_geometry (field r ''geometry'')"
      using kvs by (simp add: is_feature_def)
    from geometry_coords [OF this] show ?thesis
      using feat t by (simp add: extractCoords_def)
  next
    case geom
    with assms kvs have "is_geometry r" by (simp add: track_record_def)
    then have "\<not> truthy r \<or> is_geometry r" by simp
    from geometry_coords [OF this] show ?thesis
      using geom t by (simp add: extractCoords_def)
  qed
qed

lemma main_extractCoordsFromGeometry_eq: "main_extractCoordsFromGeometry = extractCoordsFromGeometry"
  by (simp add: fun_eq_iff main_extractCoordsFromGeometry_def extractCoordsFromGeometry_def)

lemma main_scanFeatures_eq: "main_scanFeatures fs = scanFeatures fs"
  by (induction fs)
     (simp_all add: main_extractCoordsFromGeometry_eq featureCoords_def split: res.splits)

lemma main_extractCoords_eq: "main_extractCoords g = extractCoords g"
proof -
  have "main_scanFeatures = scanFeatures"
    by (simp add: fun_eq_iff main_scanFeatures_eq)
  then show ?thesis
    by (simp add: main_extractCoords_def extractCoords_def main_extractCoordsFromGeometry_eq
        split: res.splits option.splits)
qed

lemma first_properties_eq:
  "or_else (if truthy fs then (let first = elem fs 0 in
                 if truthy first then field first ''properties'' else first) else fs) JNull
   = or_else (if nullish fs then JUndefined else (let first = elem fs 0 in
                 if nullish first then JUndefined else field first ''properties'')) JNull"
proof (cases "truthy fs")
  case True
  then have nn: "\<not> nullish fs" by (cases fs) auto
  show ?thesis
    using True nn
    by (cases "elem fs 0") (simp_all add: or_else_def Let_def)
next
  case False
  then show ?thesis
    by (cases fs) (simp_all add: or_else_def Let_def)
qed

lemma main_getFirstFeatureProps_eq: "main_getFirstFeatureProps g = getFirstFeatureProps g"
  using first_properties_eq [of "field g ''features''"]
  by (simp add: main_getFirstFeatureProps_def getFirstFeatureProps_def Let_def)


lemma loadDayGeoJSON_steps:
  assumes "extractCoords g = Ret c" and "props = getFirstFeatureProps g"
    and "(if overridden props ''distance_miles'' then Ret (field props ''distance_miles'')
          else as_value (calcDistance c)) = Ret dv"
    and "(if overridden props ''elevation_gain_ft'' then Ret (field props ''elevation_gain_ft'')
          else as_value (calcElevationGain c)) = Ret ev"
  shows "loadDayGeoJSON t r f i (Inr g) =
     Ret \<lparr>index = i, filename = f, url = r @ ''/'' @ t @ ''/'' @ f, ok = True, geojson = g,
          dayNumber = (if overridden props ''day'' then field props ''day''
                       else JNum (real i + 1)),
          distance = dv, elevation = ev, error = None\<rparr>"
  using assms(3,4) unfolding assms(2)
  by (simp add: loadDayGeoJSON_def attempt_def Let_def assms(1))

lemma fetchDayStats_steps:
  assumes "extractCoords g = Ret c" and "props = getFirstFeatureProps g"
    and "(if overridden props ''distance_miles'' then Ret (field props ''distance_miles'')
          else as_value (calcDistance c)) = Ret dv"
    and "(if overridden props ''elevation_gain_ft'' then Ret (field props ''elevation_gain_ft'')
          else as_value (calcElevationGain c)) = Ret ev"
  shows "fetchDayStats (Inr g) =
     Ret \<lparr>stats_ok = True, stats_distance = dv, stats_elevation = ev\<rparr>"
  using assms(3,4) unfolding assms(2)
  by (simp add: fetchDayStats_def Let_def main_extractCoords_eq main_getFirstFeatureProps_eq
      assms(1))

lemma list_all_numeric_not_nullish:
  "list_all numeric_point ps \<Longrightarrow> \<forall>p \<in> set ps. \<not> nullish p"
  by (auto simp: list_all_iff numeric_point_not_nullish)

lemma record_stats:
  assumes "track_record g"
  obtains ps where "extractCoords g = Ret (JArr ps)"
    and "as_value (calcDistance (JArr ps)) = Ret (JNum (Math_round (trackLength ps * 10) / 10))"
    and "as_value (calcElevationGain (JArr ps))
           = Ret (JNum (Math_round ((climbs ps * 3.28084) / 10) * 10))"
proof -
  from record_coords [OF assms] obtain ps
    where ps: "extractCoords g = Ret (JArr ps)" "list_all numeric_point ps" by blast
  have "\<forall>p \<in> set ps. numeric_point p" using ps(2) by (simp add: list_all_iff)
  then have d: "calcDistance (JArr ps) = Ret (Math_round (trackLength ps * 10) / 10)"
    by (rule calcDistance_trackLength)
  have e: "calcElevationGain (JArr ps) = Ret (Math_round ((climbs ps * 3.28084) / 10) * 10)"
    using list_all_numeric_not_nullish [OF ps(2)] by (rule calcElevationGain_climbs)
  show ?thesis
    using ps(1) d e by (intro that [of ps]) (simp_all add: as_value_def)
qed

lemma fetchDayStats_general:
  "fetchDayStats (Inr g) =
     (case loadDayGeoJSON t r f i (Inr g) of
        Ret d \<Rightarrow>
          Ret (if error d = None
               then \<lparr>stats_ok = True, stats_distance = distance d, stats_elevation = elevation d\<rparr>
               else \<lparr>stats_ok = False, stats_distance = JNum 0, stats_elevation = JNum 0\<rparr>)
      | Throw e \<Rightarrow> Throw e
      | Unmodelled \<Rightarrow> Unmodelled)"
proof (cases "extractCoords g")
  case c: (Ret c)
  let ?props = "getFirstFeatureProps g"
  let ?D = "if overridden ?props ''distance_miles'' then Ret (field ?props ''distance_miles'')
            else as_value (calcDistance c)"
  let ?E = "if overridden ?props ''elevation_gain_ft'' then Ret (field ?props ''elevation_gain_ft'')
            else as_value (calcElevationGain c)"
  show ?thesis
  proof (cases ?D)
    case D: (Ret dv)
    show ?thesis
    proof (cases ?E)
      case E: (Ret ev)
      show ?thesis
        unfolding loadDayGeoJSON_steps [OF c refl D E] fetchDayStats_steps [OF c refl D E]
        by simp
    next
      case E: (Throw e)
      show ?thesis
        using D E
        by (simp add: fetchDayStats_def loadDayGeoJSON_def attempt_def Let_def
            main_extractCoords_eq main_getFirstFeatureProps_eq c)
    next
      case E: Unmodelled
      show ?thesis
        using D E
        by (simp add: fetchDayStats_def loadDayGeoJSON_def attempt_def Let_def
            main_extractCoords_eq main_getFirstFeatureProps_eq c)
    qed
  next
    case D: (Throw e)
    show ?thesis
      using D
      by (simp add: fetchDayStats_def loadDayGeoJSON_def attempt_def Let_def
          main_extractCoords_eq main_getFirstFeatureProps_eq c)
  next
    case D: Unmodelled
    show ?thesis
      using D
      by (simp add: fetchDayStats_def loadDayGeoJSON_def attempt_def Let_def
          main_extractCoords_eq main_getFirstFeatureProps_eq c)
  qed
next
  case (Throw e)
  then show ?thesis
    by (simp add: fetchDayStats_def loadDayGeoJSON_def attempt_def Let_def main_extractCoords_eq)
next
  case Unmodelled
  then show ?thesis
    by (simp add: fetchDayStats_def loadDayGeoJSON_def attempt_def Let_def main_extractCoords_eq)
qed


lemma loadDayGeoJSON_fetched_ok:
  assumes "loadDayGeoJSON t r f i (Inr g) = Ret d"
  shows "ok d \<and> index d = i \<and> filename d = f \<and> geojson d = g"
  using assms
  by (auto simp: loadDayGeoJSON_def attempt_def Let_def split: res.splits)

lemma loadDayGeoJSON_no_error:
  assumes "loadDayGeoJSON t r f i (Inr g) = Ret d" and "error d = None"
  shows "\<exists>c. extractCoords g = Ret c
     \<and> dayNumber d = (if overridden (getFirstFeatureProps g) ''day''
                       then field (getFirstFeatureProps g) ''day'' else JNum (real i + 1))
     \<and> (if overridden (getFirstFeatureProps g) ''distance_miles''
          then distance d = field (getFirstFeatureProps g) ''distance_miles''
          else as_value (calcDistance c) = Ret (distance d))
     \<and> (if overridden (getFirstFeatureProps g) ''elevation_gain_ft''
          then elevation d = field (getFirstFeatureProps g) ''elevation_gain_ft''
          else as_value (calcElevationGain c) = Ret (elevation d))"
proof (cases "extractCoords g")
  case c: (Ret c)
  let ?props = "getFirstFeatureProps g"
  let ?D = "if overridden ?props ''distance_miles'' then Ret (field ?props ''distance_miles'')
            else as_value (calcDistance c)"
  let ?E = "if overridden ?props ''elevation_gain_ft'' then Ret (field ?props ''elevation_gain_ft'')
            else as_value (calcElevationGain c)"
  show ?thesis
  proof (cases ?D)
    case D: (Ret dv)
    show ?thesis
    proof (cases ?E)
      case E: (Ret ev)
      from assms(1) have d: "d = \<lparr>index = i, filename = f, url = r @ ''/'' @ t @ ''/'' @ f,
          ok = True, geojson = g,
          dayNumber = (if overridden ?props ''day'' then field ?props ''day''
                       else JNum (real i + 1)),
          distance = dv, elevation = ev, error = None\<rparr>"
        unfolding loadDayGeoJSON_steps [OF c refl D E] by simp
      have dd: "if overridden ?props ''distance_miles''
          then dv = field ?props ''distance_miles''
          else as_value (calcDistance c) = Ret dv"
        using D by (simp split: if_splits)
      have ee: "if overridden ?props ''elevation_gain_ft''
          then ev = field ?props ''elevation_gain_ft''
          else as_value (calcElevationGain c) = Ret ev"
        using E by (simp split: if_splits)
      show ?thesis
        using c dd ee unfolding d by simp
    next
      case E: (Throw e)
      with assms D show ?thesis
        by (simp add: loadDayGeoJSON_def attempt_def Let_def c) auto
    next
      case E: Unmodelled
      with assms D show ?thesis
        by (simp add: loadDayGeoJSON_def attempt_def Let_def c)
    qed
  next
    case D: (Throw e)
    with assms show ?thesis
      by (simp add: loadDayGeoJSON_def attempt_def Let_def c) auto
  next
    case D: Unmodelled
    with assms show ?thesis
      by (simp add: loadDayGeoJSON_def attempt_def Let_def c)
  qed
next
  case (Throw e)
  with assms show ?thesis
    by (simp add: loadDayGeoJSON_def attempt_def Let_def) auto
next
  case Unmodelled
  with assms show ?thesis
    by (simp add: loadDayGeoJSON_def attempt_def Let_def)
qed

lemma fetchDayStats_no_error:
  assumes "loadDayGeoJSON t r f i (Inr g) = Ret d" and "error d = None"
  shows "fetchDayStats (Inr g)
     = Ret \<lparr>stats_ok = ok d, stats_distance = distance d, stats_elevation = elevation d\<rparr>"
  using fetchDayStats_general [of g t r f i] assms loadDayGeoJSON_fetched_ok [OF assms(1)]
  by simp

lemma gainLoop_not_Unmodelled: "gainLoop c is g \<noteq> Unmodelled"
  by (induction "is" arbitrary: g) (auto simp: item_def split: res.splits)

lemma calcElevationGain_array: "calcElevationGain (JArr qs) \<noteq> Unmodelled"
  using gainLoop_not_Unmodelled [of "JArr qs" "indices (real (length qs))" 0]
  by (cases "gainLoop (JArr qs) (indices (real (length qs))) 0")
     (auto simp: calcElevationGain_def)

lemma loadDayGeoJSON_feature_override:
  assumes "\<not> nullish v"
  shows "\<exists>d. loadDayGeoJSON t r f i
              (Inr (JObj [(''type'', JStr ''Feature''),
                          (''properties'', JObj [(''distance_miles'', v)]),
                          (''geometry'', JObj [(''type'', JStr ''LineString''),
                                               (''coordinates'', JArr qs)])])) = Ret d
            \<and> distance d = v"
proof -
  let ?g = "JObj [(''type'', JStr ''Feature''),
                  (''properties'', JObj [(''distance_miles'', v)]),
                  (''geometry'', JObj [(''type'', JStr ''LineString''),
                                       (''coordinates'', JArr qs)])]"
  have c: "extractCoords ?g = Ret (JArr qs)"
    by (simp add: extractCoords_def extractCoordsFromGeometry_def or_else_def)
  have p: "getFirstFeatureProps ?g = JObj [(''distance_miles'', v)]"
    by (simp add: getFirstFeatureProps_def or_else_def)
  show ?thesis
    using calcElevationGain_array [of qs] assms
    by (cases "calcElevationGain (JArr qs)")
       (simp_all add: loadDayGeoJSON_def attempt_def Let_def c p overridden_def as_value_def)
qed

text \<open>
  C2. For a track record that was fetched, \<open>loadDayGeoJSON\<close> returns a result without
  an error whose day number is \<open>properties.day\<close> when the properties of the first feature
  exist and carry a \<open>day\<close> that is not \<open>null\<close>, and the position plus one otherwise;
  whose distance is \<open>properties.distance_miles\<close> as it stands when that is there and not
  \<open>null\<close>, and \<open>calcDistance\<close> of the extracted track otherwise; and likewise for
  \<open>elevation_gain_ft\<close> and \<open>calcElevationGain\<close>. The same holds of every payload on
  which the \<open>try\<close> block raised nothing. A feature with \<open>distance_miles: 14.2\<close>
  resolves to the distance 14.2 on every coordinate array.
\<close>

theorem loadDayGeoJSON_resolveDay:
  assumes "track_record g"
  shows "(\<exists>d ps. loadDayGeoJSON t r f i (Inr g) = Ret d \<and> extractCoords g = Ret (JArr ps)
          \<and> ok d \<and> error d = None
          \<and> dayNumber d = (if overridden (getFirstFeatureProps g) ''day''
                            then field (getFirstFeatureProps g) ''day''
                            else JNum (real i + 1))
          \<and> (if overridden (getFirstFeatureProps g) ''distance_miles''
               then distance d = field (getFirstFeatureProps g) ''distance_miles''
               else as_value (calcDistance (JArr ps)) = Ret (distance d))
          \<and> (if overridden (getFirstFeatureProps g) ''elevation_gain_ft''
               then elevation d = field (getFirstFeatureProps g) ''elevation_gain_ft''
               else as_value (calcElevationGain (JArr ps)) = Ret (elevation d)))
       \<and> (loadDayGeoJSON t r f i (Inr h) = Ret d' \<and> error d' = None \<longrightarrow>
            (\<exists>c. extractCoords h = Ret c
               \<and> dayNumber d' = (if overridden (getFirstFeatureProps h) ''day''
                                  then field (getFirstFeatureProps h) ''day''
                                  else JNum (real i + 1))
               \<and> (if overridden (getFirstFeatureProps h) ''distance_miles''
                    then distance d' = field (getFirstFeatureProps h) ''distance_miles''
                    else as_value (calcDistance c) = Ret (distance d'))
               \<and> (if overridden (getFirstFeatureProps h) ''elevation_gain_ft''
                    then elevation d' = field (getFirstFeatureProps h) ''elevation_gain_ft''
                    else as_value (calcElevationGain c) = Ret (elevation d'))))
       \<and> (\<exists>d. loadDayGeoJSON t r f i
              (Inr (JObj [(''type'', JStr ''Feature''),
                          (''properties'', JObj [(''distance_miles'', JNum 14.2)]),
                          (''geometry'', JObj [(''type'', JStr ''LineString''),
                                               (''coordinates'', JArr qs)])])) = Ret d
            \<and> distance d = JNum 14.2)"
proof (intro conjI)
  from assms obtain ps where ps: "extractCoords g = Ret (JArr ps)"
    and dist: "as_value (calcDistance (JArr ps)) = Ret (JNum (Math_round (trackLength ps * 10) / 10))"
    and ele: "as_value (calcElevationGain (JArr ps))
           = Ret (JNum (Math_round ((climbs ps * 3.28084) / 10) * 10))"
    by (rule record_stats)
  let ?props = "getFirstFeatureProps g"
  define dv where "dv = (if overridden ?props ''distance_miles'' then field ?props ''distance_miles''
      else JNum (Math_round (trackLength ps * 10) / 10))"
  define ev where "ev = (if overridden ?props ''elevation_gain_ft'' then field ?props ''elevation_gain_ft''
      else JNum (Math_round ((climbs ps * 3.28084) / 10) * 10))"
  have D: "(if overridden ?props ''distance_miles'' then Ret (field ?props ''distance_miles'')
          else as_value (calcDistance (JArr ps))) = Ret dv"
    by (simp add: dv_def dist)
  have E: "(if overridden ?props ''elevation_gain_ft'' then Ret (field ?props ''elevation_gain_ft'')
          else as_value (calcElevationGain (JArr ps))) = Ret ev"
    by (simp add: ev_def ele)
  show "\<exists>d ps. loadDayGeoJSON t r f i (Inr g) = Ret d \<and> extractCoords g = Ret (JArr ps)
          \<and> ok d \<and> error d = None
          \<and> dayNumber d = (if overridden ?props ''day'' then field ?props ''day''
                            else JNum (real i + 1))
          \<and> (if overridden ?props ''distance_miles''
               then distance d = field ?props ''distance_miles''
               else as_value (calcDistance (JArr ps)) = Ret (distance d))
          \<and> (if overridden ?props ''elevation_gain_ft''
               then elevation d = field ?props ''elevation_gain_ft''
               else as_value (calcElevationGain (JArr ps)) = Ret (elevation d))"
    unfolding loadDayGeoJSON_steps [OF ps refl D E]
    using ps dist ele by (auto simp: dv_def ev_def)
next
  show "loadDayGeoJSON t r f i (Inr h) = Ret d' \<and> error d' = None \<longrightarrow>
            (\<exists>c. extractCoords h = Ret c
               \<and> dayNumber d' = (if overridden (getFirstFeatureProps h) ''day''
                                  then field (getFirstFeatureProps h) ''day''
                                  else JNum (real i + 1))
               \<and> (if overridden (getFirstFeatureProps h) ''distance_miles''
                    then distance d' = field (getFirstFeatureProps h) ''distance_miles''
                    else as_value (calcDistance c) = Ret (distance d'))
               \<and> (if overridden (getFirstFeatureProps h) ''elevation_gain_ft''
                    then elevation d' = field (getFirstFeatureProps h) ''elevation_gain_ft''
                    else as_value (calcElevationGain c) = Ret (elevation d')))"
    using loadDayGeoJSON_no_error [of t r f i h d'] by blast
next
  have "\<not> nullish (JNum 14.2)" by simp
  then show "\<exists>d. loadDayGeoJSON t r f i
              (Inr (JObj [(''type'', JStr ''Feature''),
                          (''properties'', JObj [(''distance_miles'', JNum 14.2)]),
                          (''geometry'', JObj [(''type'', JStr ''LineString''),
                                               (''coordinates'', JArr qs)])])) = Ret d
            \<and> distance d = JNum 14.2"
    by (rule loadDayGeoJSON_feature_override)
qed


lemma sample_day_record: "track_record sample_day"
  by (simp add: sample_day_def track_record_def is_feature_def is_geometry_def is_path_def
      numeric_point_def)

lemma sample_day_coords:
  "extractCoords sample_day
     = Ret (JArr [JArr [JNum 0, JNum 0, JNum 100], JArr [JNum 0, JNum 0, JNum 204]])"
  by (simp add: sample_day_def extractCoords_def featureCoords_def member_def
      extractCoordsFromGeometry_def or_else_def)

lemma sample_day_props:
  "getFirstFeatureProps sample_day
     = JObj [(''day'', JNum 7), (''distance_miles'', JNum (- 5)), (''elevation_gain_ft'', JNull)]"
  by (simp add: sample_day_def getFirstFeatureProps_def or_else_def)

lemma sample_day_gain:
  "calcElevationGain (JArr [JArr [JNum 0, JNum 0, JNum 100], JArr [JNum 0, JNum 0, JNum 204]])
     = Ret 340"
  by (simp add: calcElevationGain_def indices_def Math_round_def upt_conv_Cons item_def)

lemma sample_day_overrides:
  "overridden (getFirstFeatureProps sample_day) ''day''"
  "overridden (getFirstFeatureProps sample_day) ''distance_miles''"
  "\<not> overridden (getFirstFeatureProps sample_day) ''elevation_gain_ft''"
  by (simp_all add: sample_day_props overridden_def)

lemma sample_day_result:
  "loadDayGeoJSON t r f i (Inr sample_day) =
     Ret \<lparr>index = i, filename = f, url = r @ ''/'' @ t @ ''/'' @ f, ok = True,
          geojson = sample_day, dayNumber = JNum 7,
          distance = JNum (- 5), elevation = JNum 340, error = None\<rparr>"
proof -
  have D: "(if overridden (getFirstFeatureProps sample_day) ''distance_miles''
            then Ret (field (getFirstFeatureProps sample_day) ''distance_miles'')
            else as_value (calcDistance
              (JArr [JArr [JNum 0, JNum 0, JNum 100], JArr [JNum 0, JNum 0, JNum 204]])))
         = Ret (JNum (- 5))"
    using sample_day_overrides by (simp add: sample_day_props)
  have E: "(if overridden (getFirstFeatureProps sample_day) ''elevation_gain_ft''
            then Ret (field (getFirstFeatureProps sample_day) ''elevation_gain_ft'')
            else as_value (calcElevationGain
              (JArr [JArr [JNum 0, JNum 0, JNum 100], JArr [JNum 0, JNum 0, JNum 204]])))
         = Ret (JNum 340)"
    using sample_day_overrides by (simp add: sample_day_gain as_value_def)
  from loadDayGeoJSON_steps [OF sample_day_coords refl D E, of t r f i] sample_day_overrides
  show ?thesis by (simp add: sample_day_props)
qed

theorem loadDayGeoJSON_resolveDay_witness:
  "track_record sample_day
   \<and> (\<exists>d. loadDayGeoJSON ''jmt'' ''../data'' ''day-3.geojson'' 2 (Inr sample_day) = Ret d
          \<and> dayNumber d = JNum 7 \<and> distance d = JNum (- 5) \<and> elevation d = JNum 340)"
proof -
  from loadDayGeoJSON_resolveDay [OF sample_day_record, where t = "''jmt''"
      and r = "''../data''" and f = "''day-3.geojson''" and i = 2 and qs = "[]"
      and h = sample_day
      and d' = "\<lparr>index = 2, filename = ''day-3.geojson'',
          url = ''../data'' @ ''/'' @ ''jmt'' @ ''/'' @ ''day-3.geojson'', ok = True,
          geojson = sample_day, dayNumber = JNum 7,
          distance = JNum (- 5), elevation = JNum 340, error = None\<rparr>", THEN conjunct1]
  obtain d ps where d: "loadDayGeoJSON ''jmt'' ''../data'' ''day-3.geojson'' 2 (Inr sample_day) = Ret d"
    and ps: "extractCoords sample_day = Ret (JArr ps)"
    and day: "dayNumber d = field (getFirstFeatureProps sample_day) ''day''"
    and dist: "distance d = field (getFirstFeatureProps sample_day) ''distance_miles''"
    and ele: "as_value (calcElevationGain (JArr ps)) = Ret (elevation d)"
    using sample_day_overrides by auto
  from ps have "ps = [JArr [JNum 0, JNum 0, JNum 100], JArr [JNum 0, JNum 0, JNum 204]]"
    by (simp add: sample_day_coords)
  with ele have "elevation d = JNum 340"
    by (simp add: sample_day_gain as_value_def)
  with d day dist sample_day_record show ?thesis
    by (simp add: sample_day_props)
qed

lemma loadDayGeoJSON_failed:
  "loadDayGeoJSON t r f i (Inl e) =
     Ret \<lparr>index = i, filename = f, url = r @ ''/'' @ t @ ''/'' @ f, ok = False, geojson = JNull,
          dayNumber = JNum (real i + 1), distance = JNum 0, elevation = JNum 0,
          error = Some e\<rparr>"
  by (simp add: loadDayGeoJSON_def)

text \<open>
  C10. On every track record the homepage's \<open>fetchDayStats\<close> returns the success flag,
  the distance and the elevation that the trip page's \<open>loadDayGeoJSON\<close> returns, and so
  it does on every payload on which the trip page's \<open>try\<close> block raised nothing and on
  a failed request; the homepage's copies of \<open>extractCoords\<close> and
  \<open>getFirstFeatureProps\<close> equal the trip page's on every value.
\<close>

theorem fetchDayStats_same_stats:
  assumes "track_record g"
  shows "(\<exists>d. loadDayGeoJSON t r f i (Inr g) = Ret d
          \<and> fetchDayStats (Inr g)
               = Ret \<lparr>stats_ok = ok d, stats_distance = distance d,
                       stats_elevation = elevation d\<rparr>)
       \<and> (loadDayGeoJSON t r f i (Inr p) = Ret d' \<and> error d' = None \<longrightarrow>
            fetchDayStats (Inr p)
              = Ret \<lparr>stats_ok = ok d', stats_distance = distance d',
                      stats_elevation = elevation d'\<rparr>)
       \<and> (\<exists>d. loadDayGeoJSON t r f i (Inl e) = Ret d
          \<and> fetchDayStats (Inl e)
               = Ret \<lparr>stats_ok = ok d, stats_distance = distance d,
                       stats_elevation = elevation d\<rparr>)
       \<and> main_extractCoords h = extractCoords h
       \<and> main_getFirstFeatureProps h = getFirstFeatureProps h"
proof -
  from assms obtain ps where ps: "extractCoords g = Ret (JArr ps)"
    and dist: "as_value (calcDistance (JArr ps)) = Ret (JNum (Math_round (trackLength ps * 10) / 10))"
    and ele: "as_value (calcElevationGain (JArr ps))
           = Ret (JNum (Math_round ((climbs ps * 3.28084) / 10) * 10))"
    by (rule record_stats)
  let ?props = "getFirstFeatureProps g"
  define dv where "dv = (if overridden ?props ''distance_miles'' then field ?props ''distance_miles''
      else JNum (Math_round (trackLength ps * 10) / 10))"
  define ev where "ev = (if overridden ?props ''elevation_gain_ft'' then field ?props ''elevation_gain_ft''
      else JNum (Math_round ((climbs ps * 3.28084) / 10) * 10))"
  have D: "(if overridden ?props ''distance_miles'' then Ret (field ?props ''distance_miles'')
          else as_value (calcDistance (JArr ps))) = Ret dv"
    by (simp add: dv_def dist)
  have E: "(if overridden ?props ''elevation_gain_ft'' then Ret (field ?props ''elevation_gain_ft'')
          else as_value (calcElevationGain (JArr ps))) = Ret ev"
    by (simp add: ev_def ele)
  have a: "\<exists>d. loadDayGeoJSON t r f i (Inr g) = Ret d
          \<and> fetchDayStats (Inr g)
               = Ret \<lparr>stats_ok = ok d, stats_distance = distance d,
                       stats_elevation = elevation d\<rparr>"
    unfolding loadDayGeoJSON_steps [OF ps refl D E] fetchDayStats_steps [OF ps refl D E]
    by simp
  have b: "\<exists>d. loadDayGeoJSON t r f i (Inl e) = Ret d
          \<and> fetchDayStats (Inl e)
               = Ret \<lparr>stats_ok = ok d, stats_distance = distance d,
                       stats_elevation = elevation d\<rparr>"
    by (simp add: loadDayGeoJSON_failed fetchDayStats_def)
  have c: "loadDayGeoJSON t r f i (Inr p) = Ret d' \<and> error d' = None \<longrightarrow>
            fetchDayStats (Inr p)
              = Ret \<lparr>stats_ok = ok d', stats_distance = distance d',
                      stats_elevation = elevation d'\<rparr>"
    using fetchDayStats_no_error [of t r f i p d'] by blast
  from a b c show ?thesis
    by (simp add: main_extractCoords_eq main_getFirstFeatureProps_eq)
qed

theorem fetchDayStats_same_stats_witness:
  "track_record sample_day
   \<and> (\<exists>d. loadDayGeoJSON ''jmt'' ''../data'' ''day-3.geojson'' 2 (Inr sample_day) = Ret d
          \<and> fetchDayStats (Inr sample_day)
               = Ret \<lparr>stats_ok = ok d, stats_distance = distance d,
                       stats_elevation = elevation d\<rparr>)
   \<and> fetchDayStats (Inr sample_day)
       = Ret \<lparr>stats_ok = True, stats_distance = JNum (- 5), stats_elevation = JNum 340\<rparr>"
proof -
  let ?d = "\<lparr>index = 2, filename = ''day-3.geojson'',
          url = ''../data'' @ ''/'' @ ''jmt'' @ ''/'' @ ''day-3.geojson'', ok = True,
          geojson = sample_day, dayNumber = JNum 7,
          distance = JNum (- 5), elevation = JNum 340, error = None\<rparr>"
  have d: "loadDayGeoJSON ''jmt'' ''../data'' ''day-3.geojson'' 2 (Inr sample_day) = Ret ?d"
    by (rule sample_day_result)
  note T = fetchDayStats_same_stats [OF sample_day_record, where t = "''jmt''"
      and r = "''../data''" and f = "''day-3.geojson''" and i = 2 and e = TypeError
      and h = sample_day and p = sample_day and d' = ?d]
  from T d have "fetchDayStats (Inr sample_day)
       = Ret \<lparr>stats_ok = True, stats_distance = JNum (- 5), stats_elevation = JNum 340\<rparr>"
    by simp
  with T sample_day_record show ?thesis by blast
qed

text \<open>Outside the track records the two scripts part: when a statement of the \<open>try\<close>
  block throws after \<open>result.ok = true\<close>, the trip page keeps \<open>ok\<close> and what was
  assigned so far, and the homepage reports a failed day.\<close>

lemma loadDayGeoJSON_keeps_partial_result:
  "loadDayGeoJSON t r f i
     (Inr (JObj [(''type'', JStr ''Feature''),
                 (''properties'', JObj [(''distance_miles'', JNum 12)]),
                 (''geometry'', JObj [(''type'', JStr ''LineString''),
                                      (''coordinates'', JArr [JNull, JNull])])]))
   = Ret \<lparr>index = i, filename = f, url = r @ ''/'' @ t @ ''/'' @ f, ok = True,
          geojson = JObj [(''type'', JStr ''Feature''),
                 (''properties'', JObj [(''distance_miles'', JNum 12)]),
                 (''geometry'', JObj [(''type'', JStr ''LineString''),
                                      (''coordinates'', JArr [JNull, JNull])])],
          dayNumber = JNum (real i + 1), distance = JNum 12, elevation = JNum 0,
          error = Some TypeError\<rparr>"
  by (simp add: loadDayGeoJSON_def attempt_def Let_def extractCoords_def
      extractCoordsFromGeometry_def or_else_def getFirstFeatureProps_def overridden_def
      as_value_def calcElevationGain_def indices_def upt_conv_Cons item_def)

lemma fetchDayStats_drops_partial_result:
  "fetchDayStats
     (Inr (JObj [(''type'', JStr ''Feature''),
                 (''properties'', JObj [(''distance_miles'', JNum 12)]),
                 (''geometry'', JObj [(''type'', JStr ''LineString''),
                                      (''coordinates'', JArr [JNull, JNull])])]))
   = Ret \<lparr>stats_ok = False, stats_distance = JNum 0, stats_elevation = JNum 0\<rparr>"
  by (simp add: fetchDayStats_def Let_def main_extractCoords_def
      main_extractCoordsFromGeometry_def or_else_def main_getFirstFeatureProps_def overridden_def
      as_value_def calcElevationGain_def indices_def upt_conv_Cons item_def)

section \<open>Properties of the binary64 numbers\<close>

lemmas binary64_eval =
  binary64_def exponent2_def halvings.simps doublings.simps round_even_def pow2_def Let_def

lemma halvings_bounds:
  assumes "1 \<le> x"
  shows "2 ^ halvings x \<le> x \<and> x < 2 * 2 ^ halvings x"
  using assms
proof (induction x rule: halvings.induct)
  case (1 x)
  show ?case
  proof (cases "2 \<le> x")
    case True
    then have h: "halvings x = Suc (halvings (x / 2))" by (simp add: halvings.simps [of x])
    from True have "1 \<le> x / 2" by simp
    from 1(1) [OF True this] show ?thesis unfolding h by simp
  next
    case False
    then have "halvings x = 0" by (simp add: halvings.simps [of x])
    with False 1(2) show ?thesis by simp
  qed
qed

lemma doublings_bounds:
  assumes "0 < x" and "x < 1"
  shows "1 \<le> x * 2 ^ doublings x \<and> x * 2 ^ doublings x < 2"
  using assms
proof (induction x rule: doublings.induct)
  case (1 x)
  from 1(2,3) have h: "doublings x = Suc (doublings (2 * x))"
    by (simp add: doublings.simps [of x])
  show ?case
  proof (cases "2 * x < 1")
    case True
    from 1(2,3) have a: "0 < x \<and> x < 1" by simp
    from 1(2) have "0 < 2 * x" by simp
    from 1(1) [OF a this True] show ?thesis unfolding h by (simp add: mult.assoc mult.left_commute)
  next
    case False
    then have "doublings (2 * x) = 0" by (simp add: doublings.simps [of "2 * x"])
    with False 1(3) show ?thesis unfolding h by simp
  qed
qed

lemma pow2_power_int: "pow2 k = power_int 2 k"
  by (simp add: pow2_def power_int_def field_simps)

lemma pow2_pos: "0 < pow2 k"
  by (simp add: pow2_power_int)

lemma pow2_add: "pow2 (a + b) = pow2 a * pow2 b"
  by (simp add: pow2_power_int power_int_add)

lemma pow2_nat: "pow2 (int n) = 2 ^ n"
  by (simp add: pow2_def)

lemma pow2_le_cancel:
  assumes "pow2 a \<le> pow2 b"
  shows "a \<le> b"
proof (rule ccontr)
  assume "\<not> a \<le> b"
  then have "b < a" by simp
  then have "power_int (2 :: real) b < power_int 2 a"
    by (rule power_int_strict_increasing) simp
  with assms show False by (simp add: pow2_power_int)
qed

text \<open>The exponent is the one of the binade the number lies in.\<close>

lemma exponent2_bounds:
  assumes "0 < x"
  shows "pow2 (exponent2 x) \<le> x \<and> x < 2 * pow2 (exponent2 x)"
proof (cases "1 \<le> x")
  case True
  with halvings_bounds [OF True] show ?thesis
    by (simp add: exponent2_def pow2_def)
next
  case False
  then have x: "x < 1" by simp
  have p: "pow2 (- int (doublings x)) = 1 / 2 ^ doublings x"
    by (simp add: pow2_power_int power_int_minus field_simps)
  have e: "exponent2 x = - int (doublings x)"
    using False by (simp add: exponent2_def)
  from doublings_bounds [OF assms x] show ?thesis
    unfolding e p by (simp add: field_simps)
qed

lemma round_even_cases:
  "round_even y = \<lfloor>y\<rfloor> \<and> y - of_int \<lfloor>y\<rfloor> \<le> 1 / 2
   \<or> round_even y = \<lfloor>y\<rfloor> + 1 \<and> 1 / 2 \<le> y - of_int \<lfloor>y\<rfloor>"
  by (auto simp: round_even_def Let_def)

lemma round_even_of_int: "round_even (of_int n) = n"
  by (simp add: round_even_def)

lemma round_even_le:
  assumes "y \<le> of_int n"
  shows "round_even y \<le> n"
proof (cases "y = of_int n")
  case True
  then show ?thesis by (simp add: round_even_of_int)
next
  case False
  with assms have "y < of_int n" by simp
  then have "\<lfloor>y\<rfloor> < n" by (simp add: floor_less_iff)
  with round_even_cases [of y] show ?thesis by auto
qed

lemma round_even_ge:
  assumes "of_int n \<le> y"
  shows "n \<le> round_even y"
proof -
  from assms have "n \<le> \<lfloor>y\<rfloor>" by (simp add: le_floor_iff)
  with round_even_cases [of y] show ?thesis by auto
qed

text \<open>Rounding does not cross a power of two.\<close>

lemma binary64_le_pow2:
  assumes "\<bar>x\<bar> \<le> 2 ^ m"
  shows "\<bar>binary64 x\<bar> \<le> 2 ^ m"
proof (cases "x = 0")
  case True
  then show ?thesis by (simp add: binary64_def)
next
  case False
  define e where "e = max (exponent2 \<bar>x\<bar>) (- 1022)"
  define u where "u = pow2 (e - 52)"
  have u: "0 < u" by (simp add: u_def pow2_pos)
  have b: "binary64 x = of_int (round_even (x / u)) * u"
    using False by (simp add: binary64_def e_def u_def Let_def)
  from False have "0 < \<bar>x\<bar>" by simp
  from exponent2_bounds [OF this] assms have "pow2 (exponent2 \<bar>x\<bar>) \<le> pow2 (int m)"
    by (simp add: pow2_nat)
  then have "exponent2 \<bar>x\<bar> \<le> int m"
    by (rule pow2_le_cancel)
  then have em: "e \<le> int m" by (simp add: e_def)
  define k where "k = nat (int m - e + 52)"
  have "pow2 (int m) = pow2 (int k) * pow2 (e - 52)"
    using em by (simp add: k_def pow2_add [symmetric])
  then have mk: "2 ^ m = 2 ^ k * u" by (simp add: pow2_nat u_def)
  have "\<bar>x\<bar> / u \<le> 2 ^ k" using assms u by (simp add: mk field_simps)
  then have up: "x / u \<le> of_int (2 ^ k)" and lo: "of_int (- (2 ^ k)) \<le> x / u"
    using u by (simp_all add: abs_le_iff field_simps)
  from round_even_le [OF up] round_even_ge [OF lo]
  have "\<bar>round_even (x / u)\<bar> \<le> 2 ^ k" by simp
  then have "\<bar>of_int (round_even (x / u)) :: real\<bar> \<le> 2 ^ k"
    by (metis of_int_abs of_int_le_iff of_int_numeral of_int_power)
  then have "\<bar>of_int (round_even (x / u)) * u\<bar> \<le> 2 ^ k * u"
    using u by (simp add: abs_mult)
  then show ?thesis by (simp add: b mk)
qed

lemma double_bounded:
  assumes "\<bar>x\<bar> \<le> 2 ^ m" and "m < 1024"
  shows "double x = Ret (binary64 x) \<and> \<bar>binary64 x\<bar> \<le> 2 ^ m"
proof -
  from binary64_le_pow2 [OF assms(1)] have b: "\<bar>binary64 x\<bar> \<le> 2 ^ m" .
  have "(2 :: real) ^ m < 2 ^ 1024"
    using assms(2) by (simp only: power_strict_increasing_iff one_less_numeral_iff semiring_norm)
  with b show ?thesis by (simp add: double_def)
qed

lemma pow2_mono: "a \<le> b \<Longrightarrow> pow2 a \<le> pow2 b"
  by (simp add: pow2_power_int power_int_increasing)

text \<open>Rounding moves a number by at most half a unit in the last place.\<close>

lemma binary64_error:
  assumes "\<bar>x\<bar> \<le> 2 ^ m"
  shows "\<bar>binary64 x - x\<bar> \<le> 2 ^ m / 2 ^ 53"
proof (cases "x = 0")
  case True
  then show ?thesis by (simp add: binary64_def)
next
  case False
  define e where "e = max (exponent2 \<bar>x\<bar>) (- 1022)"
  define u where "u = pow2 (e - 52)"
  have u: "0 < u" by (simp add: u_def pow2_pos)
  have b: "binary64 x = of_int (round_even (x / u)) * u"
    using False by (simp add: binary64_def e_def u_def Let_def)
  from False have "0 < \<bar>x\<bar>" by simp
  from exponent2_bounds [OF this] assms have "pow2 (exponent2 \<bar>x\<bar>) \<le> pow2 (int m)"
    by (simp add: pow2_nat)
  then have "exponent2 \<bar>x\<bar> \<le> int m" by (rule pow2_le_cancel)
  then have em: "e - 52 \<le> int m - 52" by (simp add: e_def)
  have "pow2 (int m - 52) = pow2 (int m) * pow2 (- 52)"
    using pow2_add [of "int m" "- 52"] by simp
  also have "\<dots> = 2 ^ m / 2 ^ 52" by (simp add: pow2_nat pow2_def)
  finally have "u \<le> 2 ^ m / 2 ^ 52" using pow2_mono [OF em] by (simp add: u_def)
  then have h: "u / 2 \<le> 2 ^ m / 2 ^ 53" by simp
  have "\<bar>of_int (round_even (x / u)) - x / u\<bar> \<le> 1 / 2"
    using round_even_cases [of "x / u"] by (auto simp: abs_le_iff)
  then have "\<bar>of_int (round_even (x / u)) - x / u\<bar> * u \<le> 1 / 2 * u"
    using u by (intro mult_right_mono) simp_all
  moreover have "binary64 x - x = (of_int (round_even (x / u)) - x / u) * u"
    using u by (simp add: b field_simps)
  ultimately have "\<bar>binary64 x - x\<bar> \<le> u / 2"
    using u by (simp add: abs_mult)
  with h show ?thesis by linarith
qed

text \<open>A number \<open>k * 2 ^ j\<close> with \<open>\<bar>k\<bar> \<le> 2 ^ 53\<close> and \<open>- 1074 \<le> j\<close> is a binary64 number.\<close>

lemma binary64_exact:
  assumes "\<bar>k\<bar> \<le> 2 ^ 53" and "- 1074 \<le> j"
  shows "binary64 (of_int k * pow2 j) = of_int k * pow2 j"
proof (cases "k = 0")
  case True
  then show ?thesis by (simp add: binary64_def)
next
  case False
  define x where "x = of_int k * pow2 j"
  have pj: "0 < pow2 j" by (rule pow2_pos)
  have x0: "x \<noteq> 0" using False pj by (simp add: x_def)
  define E where "E = exponent2 \<bar>x\<bar>"
  define e where "e = max E (- 1022)"
  define u where "u = pow2 (e - 52)"
  have u: "0 < u" by (simp add: u_def pow2_pos)
  have b: "binary64 x = of_int (round_even (x / u)) * u"
    using x0 by (simp add: binary64_def E_def e_def u_def Let_def)
  from x0 have "0 < \<bar>x\<bar>" by simp
  from exponent2_bounds [OF this] have lo: "pow2 E \<le> \<bar>x\<bar>" by (simp add: E_def)
  have ax: "\<bar>x\<bar> = \<bar>of_int k\<bar> * pow2 j" using pj by (simp add: x_def abs_mult)
  have "\<bar>of_int k :: real\<bar> \<le> 2 ^ 53"
    using assms(1) by (metis of_int_abs of_int_le_iff of_int_numeral of_int_power)
  then have "\<bar>x\<bar> \<le> 2 ^ 53 * pow2 j" unfolding ax using pj by (intro mult_right_mono) simp_all
  also have "\<dots> = pow2 (53 + j)" using pow2_add [of 53 j] by (simp add: pow2_def)
  finally have hi: "\<bar>x\<bar> \<le> pow2 (53 + j)" .
  from lo hi have "pow2 E \<le> pow2 (53 + j)" by simp
  then have E: "E \<le> 53 + j" by (rule pow2_le_cancel)
  show ?thesis
  proof (cases "E = 53 + j")
    case True
    with lo hi have "\<bar>x\<bar> = pow2 (53 + j)" by simp
    then have "\<bar>of_int k :: real\<bar> * pow2 j = 2 ^ 53 * pow2 j"
      unfolding ax using pow2_add [of 53 j] by (simp add: pow2_def)
    then have "\<bar>of_int k :: real\<bar> = 2 ^ 53" using pj by simp
    then have "\<bar>k\<bar> = 2 ^ 53"
      by (metis of_int_abs of_int_eq_iff of_int_numeral of_int_power)
    then have "k = 2 ^ 53 \<or> k = - (2 ^ 53)" by linarith
    then have "even k" by auto
    then have k2: "k = 2 * (k div 2)" by simp
    have e: "e = 53 + j" using True assms(2) by (simp add: e_def)
    have "u = pow2 (1 + j)" by (simp add: u_def e)
    also have "\<dots> = 2 * pow2 j" using pow2_add [of 1 j] by (simp add: pow2_def)
    finally have uj: "u = 2 * pow2 j" .
    have "x / u = of_int k / 2" using pj by (simp add: x_def uj)
    also have "\<dots> = of_int (k div 2)" by (subst k2) simp
    finally have xu: "x / u = of_int (k div 2)" .
    have "binary64 x = of_int (k div 2) * u" by (simp only: b xu round_even_of_int)
    also have "\<dots> = of_int (2 * (k div 2)) * pow2 j" by (simp add: uj)
    also have "\<dots> = x" using k2 by (simp add: x_def)
    finally show ?thesis by (simp add: x_def)
  next
    case False
    with E have "E \<le> 52 + j" by simp
    then have "e - 52 \<le> j" using assms(2) by (simp add: e_def)
    define p where "p = nat (j - (e - 52))"
    have "pow2 j = pow2 (int p) * pow2 (e - 52)"
      using \<open>e - 52 \<le> j\<close> by (simp add: p_def pow2_add [symmetric])
    then have pu: "pow2 j = 2 ^ p * u" by (simp add: pow2_nat u_def)
    have "x / u = of_int k * 2 ^ p" using u by (simp add: x_def pu)
    also have "\<dots> = of_int (k * 2 ^ p)" by simp
    finally have xu: "x / u = of_int (k * 2 ^ p)" .
    have "binary64 x = of_int (k * 2 ^ p) * u" by (simp only: b xu round_even_of_int)
    also have "\<dots> = x" by (simp add: x_def pu)
    finally show ?thesis by (simp add: x_def)
  qed
qed

lemma binary64_of_int:
  assumes "\<bar>k\<bar> \<le> 2 ^ 53"
  shows "binary64 (of_int k) = of_int k"
  using binary64_exact [OF assms, of 0] by (simp add: pow2_def)

lemma binary64_half:
  assumes "\<bar>k\<bar> \<le> 2 ^ 53"
  shows "binary64 (of_int k / 2) = of_int k / 2"
  using binary64_exact [OF assms, of "- 1"] by (simp add: pow2_def)


text \<open>The numbers of the examples, as the program holds them.\<close>

lemma binary64_examples:
  "binary64 40 = 40"
  "binary64 (1 / 10) = 3602879701896397 / 36028797018963968"
  "binary64 0.01 = 5764607523034235 / 576460752303423488"
  "binary64 2.34 = 658651445502935 / 281474976710656"
  "binary64 (binary64 0.01 + binary64 2.34) = 1322932390540083 / 562949953421312"
  "binary64 (binary64 0.01 + binary64 2.34) < 2.35"
  "binary64 14.2 = 3996944669291315 / 281474976710656"
  by (simp_all add: binary64_eval)

section \<open>Properties of the trip totals\<close>

lemma bind_res_Ret: "bind_res m f = Ret y \<longleftrightarrow> (\<exists>x. m = Ret x \<and> f x = Ret y)"
  by (cases m) auto

lemma calcDistance_tenths:
  assumes "calcDistance c = Ret x"
  shows "\<exists>k :: int. x = of_int k / 10"
proof (cases "truthy c")
  case False
  with assms have "x = of_int 0 / 10" by (simp add: calcDistance_def)
  then show ?thesis by blast
next
  case True
  with assms obtain n where n: "(if n < 2 then Ret 0
        else bind_res (distanceLoop c (indices n) 0) (\<lambda>tot. Ret (Math_round (tot * 10) / 10)))
      = Ret x"
    by (auto simp: calcDistance_def bind_res_Ret)
  show ?thesis
  proof (cases "n < 2")
    case True
    with n have "x = of_int 0 / 10" by simp
    then show ?thesis by blast
  next
    case False
    with n obtain tot where "Ret (Math_round (tot * 10) / 10) = Ret x"
      by (auto simp: bind_res_Ret)
    then have "x = of_int \<lfloor>tot * 10 + 1 / 2\<rfloor> / 10"
      by (simp add: Math_round_def)
    then show ?thesis by blast
  qed
qed

lemma calcElevationGain_tens:
  assumes "calcElevationGain c = Ret y"
  shows "\<exists>k :: int. y = 10 * of_int k"
proof (cases "truthy c")
  case False
  with assms have "y = 10 * of_int 0" by (simp add: calcElevationGain_def)
  then show ?thesis by blast
next
  case True
  with assms obtain n where n: "(if n < 2 then Ret 0
        else bind_res (gainLoop c (indices n) 0) (\<lambda>gain. Ret (Math_round ((gain * 3.28084) / 10) * 10)))
      = Ret y"
    by (auto simp: calcElevationGain_def bind_res_Ret)
  show ?thesis
  proof (cases "n < 2")
    case True
    with n have "y = 10 * of_int 0" by simp
    then show ?thesis by blast
  next
    case False
    with n obtain gain where "Ret (Math_round ((gain * 3.28084) / 10) * 10) = Ret y"
      by (auto simp: bind_res_Ret)
    then have "y = 10 * of_int \<lfloor>(gain * 3.28084) / 10 + 1 / 2\<rfloor>"
      by (simp add: Math_round_def)
    then show ?thesis by blast
  qed
qed

lemma numeric_statsE:
  assumes "numeric_stats d"
  obtains x y where "distance d = JNum x" "elevation d = JNum y"
  using assms by (auto simp: numeric_stats_def split: jsval.splits)

lemma number_JNum: "number (JNum x) = x"
  by (simp add: number_def)

lemma add_within:
  assumes "\<bar>acc\<bar> \<le> 2 ^ (b + k)" and "\<bar>x\<bar> \<le> 2 ^ b" and "b + Suc k < 1024"
  shows "double x = Ret (binary64 x)
     \<and> double (acc + binary64 x) = Ret (binary64 (acc + binary64 x))
     \<and> \<bar>binary64 (acc + binary64 x)\<bar> \<le> 2 ^ (b + Suc k)"
proof -
  have b: "b < 1024" using assms(3) by simp
  from double_bounded [OF assms(2) b] have dx: "double x = Ret (binary64 x)"
    and bx: "\<bar>binary64 x\<bar> \<le> 2 ^ b" by simp_all
  have "(2 :: real) ^ b \<le> 2 ^ (b + k)" by simp
  with bx assms(1) abs_triangle_ineq [of acc "binary64 x"]
  have "\<bar>acc + binary64 x\<bar> \<le> 2 * 2 ^ (b + k)" by linarith
  then have s: "\<bar>acc + binary64 x\<bar> \<le> 2 ^ (b + Suc k)" by simp
  from double_bounded [OF s assms(3)] dx show ?thesis by simp
qed

text \<open>The loop adds the distances and the elevations of the days it is given, each in
  binary64 arithmetic from left to right, unless a sum leaves the finite numbers.\<close>

lemma sumDays_sum64:
  assumes "\<forall>d \<in> set ds. numeric_stats d"
  shows "sumDays ds td te
       = Ret (sum64 (map (number \<circ> distance) ds) td, sum64 (map (number \<circ> elevation) ds) te)
     \<or> sumDays ds td te = Unmodelled"
  using assms
proof (induction ds arbitrary: td te)
  case Nil
  then show ?case by simp
next
  case (Cons d ds)
  then obtain x y where xy: "distance d = JNum x" "elevation d = JNum y"
    by (auto elim: numeric_statsE)
  from Cons.prems have "\<forall>d \<in> set ds. numeric_stats d" by simp
  note ih = Cons.IH [OF this, of "binary64 (td + binary64 x)" "binary64 (te + binary64 y)"]
  have n: "number (distance d) = x" "number (elevation d) = y"
    by (simp_all add: number_def xy)
  show ?case
    using ih
    by (simp add: xy number_JNum to_double_def double_add_def double_def comp_def)
qed

lemma sumDays_within:
  assumes "\<forall>d \<in> set ds. numeric_stats d \<and> stats_within b d"
    and "\<bar>td\<bar> \<le> 2 ^ (b + k)" and "\<bar>te\<bar> \<le> 2 ^ (b + k)" and "b + k + length ds < 1024"
  shows "sumDays ds td te
       = Ret (sum64 (map (number \<circ> distance) ds) td, sum64 (map (number \<circ> elevation) ds) te)
     \<and> \<bar>sum64 (map (number \<circ> distance) ds) td\<bar> \<le> 2 ^ (b + k + length ds)
     \<and> \<bar>sum64 (map (number \<circ> elevation) ds) te\<bar> \<le> 2 ^ (b + k + length ds)"
  using assms
proof (induction ds arbitrary: td te k)
  case Nil
  then show ?case by simp
next
  case (Cons d ds)
  then obtain x y where xy: "distance d = JNum x" "elevation d = JNum y"
    by (auto elim: numeric_statsE)
  have n: "number (distance d) = x" "number (elevation d) = y"
    by (simp_all add: number_def xy)
  from Cons.prems(1) have x: "\<bar>x\<bar> \<le> 2 ^ b" and y: "\<bar>y\<bar> \<le> 2 ^ b"
    by (simp_all add: stats_within_def n)
  have k: "b + Suc k < 1024" using Cons.prems(4) by simp
  note dx = add_within [OF Cons.prems(2) x k]
  note dy = add_within [OF Cons.prems(3) y k]
  from Cons.prems(1) have rest: "\<forall>d \<in> set ds. numeric_stats d \<and> stats_within b d" by simp
  have l: "b + Suc k + length ds < 1024" using Cons.prems(4) by simp
  from Cons.IH [OF rest _ _ l, of "binary64 (td + binary64 x)" "binary64 (te + binary64 y)"] dx dy
  have "sumDays ds (binary64 (td + binary64 x)) (binary64 (te + binary64 y))
       = Ret (sum64 (map (number \<circ> distance) ds) (binary64 (td + binary64 x)),
              sum64 (map (number \<circ> elevation) ds) (binary64 (te + binary64 y)))
     \<and> \<bar>sum64 (map (number \<circ> distance) ds) (binary64 (td + binary64 x))\<bar>
         \<le> 2 ^ (b + Suc k + length ds)
     \<and> \<bar>sum64 (map (number \<circ> elevation) ds) (binary64 (te + binary64 y))\<bar>
         \<le> 2 ^ (b + Suc k + length ds)"
    by blast
  then show ?case
    using dx dy by (simp add: xy number_JNum to_double_def double_add_def comp_def)
qed

text \<open>The two roundings of the sums.\<close>

lemma tenth64_cases:
  "bind_res (double_mul x 10) (\<lambda>a. double_div (Math_round a) 10) = Ret (tenth64 x)
   \<or> bind_res (double_mul x 10) (\<lambda>a. double_div (Math_round a) 10) = Unmodelled"
  by (simp add: double_mul_def double_div_def double_def Math_round_def tenth64_def)

lemma ten64_cases:
  "bind_res (double_div x 10) (\<lambda>b. double_mul (Math_round b) 10) = Ret (ten64 x)
   \<or> bind_res (double_div x 10) (\<lambda>b. double_mul (Math_round b) 10) = Unmodelled"
  by (simp add: double_mul_def double_div_def double_def Math_round_def ten64_def)

lemma tenth64_within:
  assumes "\<bar>x\<bar> \<le> 2 ^ m" and "m + 5 < 1024"
  shows "bind_res (double_mul x 10) (\<lambda>a. double_div (Math_round a) 10) = Ret (tenth64 x)"
proof -
  have "\<bar>x * 10\<bar> \<le> 2 ^ m * 2 ^ 4" using assms(1) by (simp add: abs_mult)
  then have a: "\<bar>x * 10\<bar> \<le> 2 ^ (m + 4)" by (simp only: power_add)
  have "m + 4 < 1024" using assms(2) by simp
  from double_bounded [OF a this] have da: "double (x * 10) = Ret (binary64 (x * 10))"
    and ba: "\<bar>binary64 (x * 10)\<bar> \<le> 2 ^ (m + 4)" by simp_all
  have one: "(1 :: real) \<le> 2 ^ (m + 4)" by simp
  have two: "(2 :: real) ^ (m + 5) = 2 * 2 ^ (m + 4)" by (simp add: power_add)
  have "\<bar>of_int \<lfloor>binary64 (x * 10) + 1 / 2\<rfloor> :: real\<bar> \<le> \<bar>binary64 (x * 10)\<bar> + 1"
    by linarith
  with ba one two have "\<bar>of_int \<lfloor>binary64 (x * 10) + 1 / 2\<rfloor> :: real\<bar> \<le> 2 ^ (m + 5)"
    by linarith
  then have "\<bar>of_int \<lfloor>binary64 (x * 10) + 1 / 2\<rfloor> / 10 :: real\<bar> \<le> 2 ^ (m + 5)"
    by simp
  from double_bounded [OF this assms(2)] show ?thesis
    by (simp add: double_mul_def double_div_def Math_round_def tenth64_def da)
qed

lemma ten64_within:
  assumes "\<bar>x\<bar> \<le> 2 ^ m" and "m + 5 < 1024"
  shows "bind_res (double_div x 10) (\<lambda>b. double_mul (Math_round b) 10) = Ret (ten64 x)"
proof -
  have a: "\<bar>x / 10\<bar> \<le> 2 ^ m" using assms(1) by simp
  have "m < 1024" using assms(2) by simp
  from double_bounded [OF a this] have da: "double (x / 10) = Ret (binary64 (x / 10))"
    and ba: "\<bar>binary64 (x / 10)\<bar> \<le> 2 ^ m" by simp_all
  have one: "(1 :: real) \<le> 2 ^ m" by simp
  have "\<bar>of_int \<lfloor>binary64 (x / 10) + 1 / 2\<rfloor> :: real\<bar> \<le> \<bar>binary64 (x / 10)\<bar> + 1"
    by linarith
  with ba one have r: "\<bar>of_int \<lfloor>binary64 (x / 10) + 1 / 2\<rfloor> :: real\<bar> \<le> 2 * 2 ^ m"
    by linarith
  have "\<bar>of_int \<lfloor>binary64 (x / 10) + 1 / 2\<rfloor> * 10 :: real\<bar>
      = \<bar>of_int \<lfloor>binary64 (x / 10) + 1 / 2\<rfloor> :: real\<bar> * 10"
    by (simp add: abs_mult)
  also have "\<dots> \<le> (2 * 2 ^ m) * 16" using r by linarith
  also have "\<dots> = 2 ^ (m + 5)" by (simp add: power_add)
  finally have "\<bar>of_int \<lfloor>binary64 (x / 10) + 1 / 2\<rfloor> * 10 :: real\<bar> \<le> 2 ^ (m + 5)" .
  from double_bounded [OF this assms(2)] show ?thesis
    by (simp add: double_mul_def double_div_def Math_round_def ten64_def da)
qed

lemma tripTotals_steps:
  assumes "sumDays (filter ok days) 0 0 = Ret (td, te)"
    and "bind_res (double_mul td 10) (\<lambda>a. double_div (Math_round a) 10) = Ret miles"
    and "bind_res (double_div te 10) (\<lambda>b. double_mul (Math_round b) 10) = Ret feet"
  shows "tripTotals days
     = Ret \<lparr>totalDistance = miles, totalElevation = feet, daysCount = length (filter ok days)\<rparr>"
proof -
  from assms(2) obtain a where a: "double_mul td 10 = Ret a"
    and d: "double_div (Math_round a) 10 = Ret miles"
    by (auto simp: bind_res_Ret)
  from assms(3) obtain b where b: "double_div te 10 = Ret b"
    and e: "double_mul (Math_round b) 10 = Ret feet"
    by (auto simp: bind_res_Ret)
  show ?thesis
    by (simp add: tripTotals_def Let_def assms(1) a d b e)
qed

lemma tripTotals_Unmodelled:
  assumes "sumDays (filter ok days) 0 0 = Unmodelled
     \<or> (\<exists>td te. sumDays (filter ok days) 0 0 = Ret (td, te)
          \<and> (bind_res (double_mul td 10) (\<lambda>a. double_div (Math_round a) 10) = Unmodelled
             \<or> bind_res (double_div te 10) (\<lambda>b. double_mul (Math_round b) 10) = Unmodelled))"
  shows "tripTotals days = Unmodelled"
  using assms
  by (auto simp: tripTotals_def Let_def double_mul_def double_div_def double_def
      split: if_splits)

lemma tripTotals_numeric:
  assumes "\<forall>d \<in> set days. ok d \<longrightarrow> numeric_stats d"
  shows "tripTotals days
       = Ret (binary64_totals (map (number \<circ> distance) (filter ok days))
                              (map (number \<circ> elevation) (filter ok days)))
     \<or> tripTotals days = Unmodelled"
proof -
  let ?ds = "map (number \<circ> distance) (filter ok days)"
  let ?es = "map (number \<circ> elevation) (filter ok days)"
  have "\<forall>d \<in> set (filter ok days). numeric_stats d" using assms by simp
  from sumDays_sum64 [OF this, of 0 0]
  consider (sum) "sumDays (filter ok days) 0 0 = Ret (sum64 ?ds 0, sum64 ?es 0)"
    | (out) "sumDays (filter ok days) 0 0 = Unmodelled" by blast
  then show ?thesis
  proof cases
    case sum
    from tenth64_cases [of "sum64 ?ds 0"] ten64_cases [of "sum64 ?es 0"]
    consider (both) "bind_res (double_mul (sum64 ?ds 0) 10) (\<lambda>a. double_div (Math_round a) 10)
          = Ret (tenth64 (sum64 ?ds 0))"
        "bind_res (double_div (sum64 ?es 0) 10) (\<lambda>b. double_mul (Math_round b) 10)
          = Ret (ten64 (sum64 ?es 0))"
      | (none) "bind_res (double_mul (sum64 ?ds 0) 10) (\<lambda>a. double_div (Math_round a) 10)
          = Unmodelled
        \<or> bind_res (double_div (sum64 ?es 0) 10) (\<lambda>b. double_mul (Math_round b) 10)
          = Unmodelled"
      by blast
    then show ?thesis
    proof cases
      case both
      from tripTotals_steps [OF sum both] show ?thesis
        by (simp add: binary64_totals_def)
    next
      case none
      with sum have "tripTotals days = Unmodelled"
        by (intro tripTotals_Unmodelled) blast
      then show ?thesis ..
    qed
  next
    case out
    then have "tripTotals days = Unmodelled"
      by (intro tripTotals_Unmodelled) blast
    then show ?thesis ..
  qed
qed

text \<open>The totals are returned when no sum can reach \<open>2 ^ 1024\<close>.\<close>

lemma tripTotals_within:
  assumes "\<forall>d \<in> set days. ok d \<longrightarrow> numeric_stats d"
    and "\<forall>d \<in> set days. ok d \<longrightarrow> stats_within b d" and "b + length days < 1019"
  shows "tripTotals days
       = Ret (binary64_totals (map (number \<circ> distance) (filter ok days))
                              (map (number \<circ> elevation) (filter ok days)))"
proof -
  let ?ds = "map (number \<circ> distance) (filter ok days)"
  let ?es = "map (number \<circ> elevation) (filter ok days)"
  have v: "\<forall>d \<in> set (filter ok days). numeric_stats d \<and> stats_within b d"
    using assms(1,2) by simp
  have z: "\<bar>0 :: real\<bar> \<le> 2 ^ (b + 0)" by simp
  have l: "b + 0 + length (filter ok days) < 1024"
    using assms(3) length_filter_le [of ok days] by linarith
  from sumDays_within [OF v z z l]
  have s: "sumDays (filter ok days) 0 0 = Ret (sum64 ?ds 0, sum64 ?es 0)"
    and bd: "\<bar>sum64 ?ds 0\<bar> \<le> 2 ^ (b + length (filter ok days))"
    and be: "\<bar>sum64 ?es 0\<bar> \<le> 2 ^ (b + length (filter ok days))"
    by simp_all
  have m: "b + length (filter ok days) + 5 < 1024"
    using assms(3) length_filter_le [of ok days] by linarith
  from tripTotals_steps [OF s tenth64_within [OF bd m] ten64_within [OF be m]]
  show ?thesis by (simp add: binary64_totals_def)
qed

text \<open>Whole numbers add without error.\<close>

lemma whole_binary64:
  assumes "whole x" and "\<bar>x\<bar> \<le> 2 ^ 53"
  shows "binary64 x = x"
proof -
  from assms(1) have x: "x = of_int \<lfloor>x\<rfloor>" unfolding whole_def by (rule sym)
  with assms(2) have "\<bar>of_int \<lfloor>x\<rfloor> :: real\<bar> \<le> 2 ^ 53" by (simp only:)
  then have "\<bar>\<lfloor>x\<rfloor>\<bar> \<le> 2 ^ 53"
    by (metis of_int_abs of_int_le_iff of_int_numeral of_int_power)
  from binary64_of_int [OF this] show ?thesis by (simp only: x [symmetric])
qed

lemma whole_add: "whole x \<Longrightarrow> whole y \<Longrightarrow> whole (x + y)"
proof -
  assume "whole x" and "whole y"
  then have "of_int \<lfloor>x\<rfloor> = x" and "of_int \<lfloor>y\<rfloor> = y" unfolding whole_def by simp_all
  then have "x + y = of_int (\<lfloor>x\<rfloor> + \<lfloor>y\<rfloor>)" by (simp only: of_int_add)
  then show ?thesis unfolding whole_def by (metis floor_of_int)
qed

lemma sum64_whole:
  assumes "list_all whole xs" and "whole acc"
    and "\<bar>acc\<bar> + sum_list (map abs xs) \<le> 2 ^ 53"
  shows "sum64 xs acc = acc + sum_list xs"
  using assms
proof (induction xs arbitrary: acc)
  case Nil
  then show ?case by simp
next
  case (Cons x xs)
  have nn: "0 \<le> sum_list (map abs xs)" by (rule sum_list_nonneg) auto
  from Cons.prems have x: "whole x" and xs: "list_all whole xs" by simp_all
  from Cons.prems(3) nn have "\<bar>x\<bar> \<le> 2 ^ 53" by simp
  from whole_binary64 [OF x this] have bx: "binary64 x = x" .
  from Cons.prems(3) nn have "\<bar>acc + x\<bar> \<le> 2 ^ 53" by simp
  from whole_binary64 [OF whole_add [OF Cons.prems(2) x] this]
  have ba: "binary64 (acc + x) = acc + x" .
  have "\<bar>acc + x\<bar> + sum_list (map abs xs) \<le> 2 ^ 53" using Cons.prems(3) by simp
  from Cons.IH [OF xs whole_add [OF Cons.prems(2) x] this] show ?case
    by (simp add: bx ba)
qed

text \<open>Rounding a whole number of feet to the nearest ten in binary64 arithmetic is
  exact.\<close>

lemma ten64_whole:
  assumes "whole t" and "\<bar>t\<bar> \<le> 2 ^ 49"
  shows "ten64 t = Math_round (t / 10) * 10"
proof -
  define T where "T = \<lfloor>t\<rfloor>"
  have t: "t = of_int T" using assms(1) unfolding whole_def T_def by (rule sym)
  define q where "q = (T + 5) div 10"
  have h: "t / 10 + 1 / 2 = of_int (T + 5) / 10" by (simp add: t)
  have fl: "\<lfloor>t / 10 + 1 / 2\<rfloor> = q"
    unfolding h q_def using floor_divide_of_int_eq [of "T + 5" 10, where ?'a = real] by simp
  have aT: "\<bar>of_int T :: real\<bar> \<le> 2 ^ 49" using assms(2) t by simp
  have lo: "of_int q \<le> t / 10 + 1 / 2" and hi: "t / 10 + 1 / 2 < of_int q + 1"
    using fl by linarith+
  have bq: "\<lfloor>binary64 (t / 10) + 1 / 2\<rfloor> = q"
  proof (cases "(T + 5) mod 10 = 0")
    case True
    then have "T + 5 = 10 * q" unfolding q_def by presburger
    then have "of_int (T + 5) = (10 * of_int q :: real)"
      by (simp only: of_int_mult of_int_numeral)
    then have e: "t / 10 = of_int (2 * q - 1) / 2" by (simp add: t)
    have "\<bar>of_int (2 * q - 1) :: real\<bar> \<le> 2 ^ 53"
      using aT e t by (simp add: abs_le_iff) 
    then have "\<bar>2 * q - 1\<bar> \<le> 2 ^ 53"
      by (metis of_int_abs of_int_le_iff of_int_numeral of_int_power)
    from binary64_half [OF this] have eq: "binary64 (t / 10) = t / 10" unfolding e .
    show ?thesis unfolding eq by (rule fl)
  next
    case False
    have m: "T + 5 = 10 * q + (T + 5) mod 10" by (simp add: q_def)
    have "0 \<le> (T + 5) mod 10" "(T + 5) mod 10 < 10" by simp_all
    with False m have "10 * q + 1 \<le> T + 5" and "T + 5 \<le> 10 * q + 9" by linarith+
    then have "(of_int (10 * q + 1) :: real) \<le> of_int (T + 5)"
      and "of_int (T + 5) \<le> (of_int (10 * q + 9) :: real)"
      by (simp_all only: of_int_le_iff)
    then have "(10 * of_int q + 1 :: real) \<le> of_int (T + 5)"
      and "of_int (T + 5) \<le> (10 * of_int q + 9 :: real)"
      by simp_all
    then have r: "of_int q + 1 / 10 \<le> t / 10 + 1 / 2" "t / 10 + 1 / 2 \<le> of_int q + 9 / 10"
      unfolding h by simp_all
    have "\<bar>t / 10\<bar> \<le> 2 ^ 49" using assms(2) by simp
    from binary64_error [OF this] have "\<bar>binary64 (t / 10) - t / 10\<bar> \<le> 1 / 16" by simp
    with r have "of_int q \<le> binary64 (t / 10) + 1 / 2"
      and "binary64 (t / 10) + 1 / 2 < of_int q + 1" by linarith+
    then show ?thesis by linarith
  qed
  have "\<bar>of_int q :: real\<bar> \<le> \<bar>t / 10\<bar> + 1" using lo hi by linarith
  with assms(2) have "\<bar>of_int (q * 10) :: real\<bar> \<le> 2 ^ 53" by simp
  then have "\<bar>q * 10\<bar> \<le> 2 ^ 53"
    by (metis of_int_abs of_int_le_iff of_int_numeral of_int_power)
  from binary64_of_int [OF this] have "binary64 (of_int q * 10) = of_int q * 10" by simp
  then show ?thesis by (simp add: ten64_def Math_round_def bq fl)
qed

text \<open>The error of a binary64 sum: each number and each addition adds at most half a
  unit in the last place of the largest sum.\<close>

lemma sum64_error:
  assumes "\<bar>acc - c\<bar> \<le> real i * (2 ^ B / 2 ^ 52)"
    and "\<bar>c\<bar> + sum_list (map abs xs) \<le> 2 ^ B / 2"
    and "i + length xs \<le> 2 ^ 51"
  shows "\<bar>sum64 xs acc - (c + sum_list xs)\<bar> \<le> real (i + length xs) * (2 ^ B / 2 ^ 52)"
  using assms
proof (induction xs arbitrary: acc c i)
  case Nil
  then show ?case by simp
next
  case (Cons x xs)
  define P :: real where "P = 2 ^ B"
  define \<delta> where "\<delta> = P / 2 ^ 52"
  have P: "0 \<le> P" by (simp add: P_def)
  have d: "0 \<le> \<delta>" using P by (simp add: \<delta>_def)
  have nn: "0 \<le> sum_list (map abs xs)" by (rule sum_list_nonneg) auto
  have "real (Suc i) \<le> 2 ^ 51"
  proof -
    from Cons.prems(3) have "Suc i \<le> 2 ^ 51" by simp
    then have "real (Suc i) \<le> real (2 ^ 51)" by (simp only: of_nat_le_iff)
    then show ?thesis by simp
  qed
  then have "real (Suc i) * \<delta> \<le> 2 ^ 51 * \<delta>" using d by (rule mult_right_mono)
  then have room: "real i * \<delta> + \<delta> \<le> P / 2" by (simp add: \<delta>_def algebra_simps)
  from Cons.prems(2) nn have x: "\<bar>x\<bar> \<le> P" and cx: "\<bar>c\<bar> + \<bar>x\<bar> \<le> P / 2"
    using P by (simp_all add: P_def)
  from binary64_error [of x B] x have ex: "\<bar>binary64 x - x\<bar> \<le> \<delta> / 2"
    by (simp add: P_def \<delta>_def)
  from Cons.prems(1) have ea: "\<bar>acc - c\<bar> \<le> real i * \<delta>" by (simp add: P_def \<delta>_def)
  from cx ea ex room d have "\<bar>acc + binary64 x\<bar> \<le> P" by linarith
  from binary64_error [of "acc + binary64 x" B] this
  have es: "\<bar>binary64 (acc + binary64 x) - (acc + binary64 x)\<bar> \<le> \<delta> / 2"
    by (simp add: P_def \<delta>_def)
  from ea ex es have "\<bar>binary64 (acc + binary64 x) - (c + x)\<bar> \<le> real i * \<delta> + \<delta>"
    by linarith
  then have 1: "\<bar>binary64 (acc + binary64 x) - (c + x)\<bar> \<le> real (Suc i) * (2 ^ B / 2 ^ 52)"
    by (simp add: P_def \<delta>_def algebra_simps)
  have 2: "\<bar>c + x\<bar> + sum_list (map abs xs) \<le> 2 ^ B / 2"
    using Cons.prems(2) abs_triangle_ineq [of c x] by simp
  have 3: "Suc i + length xs \<le> 2 ^ 51" using Cons.prems(3) by simp
  from Cons.IH [OF 1 2 3] show ?case by (simp add: add.assoc)
qed

lemma tenths_add: "tenths x \<Longrightarrow> tenths y \<Longrightarrow> tenths (x + y)"
proof -
  assume "tenths x" and "tenths y"
  then have "of_int \<lfloor>x * 10\<rfloor> = x * 10" and "of_int \<lfloor>y * 10\<rfloor> = y * 10"
    unfolding tenths_def by simp_all
  then have "of_int (\<lfloor>x * 10\<rfloor> + \<lfloor>y * 10\<rfloor>) = x * 10 + y * 10" by (simp only: of_int_add)
  then have "(x + y) * 10 = of_int (\<lfloor>x * 10\<rfloor> + \<lfloor>y * 10\<rfloor>)"
    by (simp only: distrib_right)
  then show ?thesis unfolding tenths_def by (metis floor_of_int)
qed

lemma tenths_sum_list: "list_all tenths xs \<Longrightarrow> tenths (sum_list xs)"
  by (induction xs) (simp_all add: tenths_add, simp add: tenths_def)

text \<open>Distances of at most one decimal total their decimal sum.\<close>

lemma tenth64_tenths:
  assumes "list_all tenths xs" and "sum_list (map abs xs) \<le> 2 ^ 20" and "length xs \<le> 2 ^ 20"
  shows "tenth64 (sum64 xs 0) = binary64 (Math_round (sum_list xs * 10) / 10)"
proof -
  define S where "S = sum64 xs 0"
  define D where "D = sum_list xs"
  define N where "N = \<lfloor>D * 10\<rfloor>"
  from tenths_sum_list [OF assms(1)] have N: "of_int N = D * 10"
    unfolding tenths_def N_def D_def .
  have 1: "\<bar>(0 :: real) - 0\<bar> \<le> real 0 * (2 ^ 21 / 2 ^ 52)" by simp
  have 2: "\<bar>0 :: real\<bar> + sum_list (map abs xs) \<le> 2 ^ 21 / 2" using assms(2) by simp
  have 3: "0 + length xs \<le> 2 ^ 51" using assms(3) by simp
  from sum64_error [OF 1 2 3] have "\<bar>S - D\<bar> \<le> real (length xs) * (2 ^ 21 / 2 ^ 52)"
    by (simp add: S_def D_def)
  moreover have "real (length xs) \<le> 2 ^ 20"
  proof -
    from assms(3) have "real (length xs) \<le> real (2 ^ 20)" by (simp only: of_nat_le_iff)
    then show ?thesis by simp
  qed
  then have "real (length xs) * (2 ^ 21 / 2 ^ 52) \<le> 2 ^ 20 * (2 ^ 21 / 2 ^ 52)"
    by (rule mult_right_mono) simp
  ultimately have e: "\<bar>S - D\<bar> \<le> 1 / 2048" by simp
  have "\<bar>D\<bar> \<le> sum_list (map abs xs)" unfolding D_def by (rule sum_list_abs)
  with assms(2) have "\<bar>D\<bar> \<le> 1048576" by simp
  with e have "\<bar>S\<bar> \<le> 2097152" by linarith
  moreover have "\<bar>S * 10\<bar> = \<bar>S\<bar> * 10" by (simp add: abs_mult)
  ultimately have "\<bar>S * 10\<bar> \<le> 33554432" by linarith
  then have "\<bar>S * 10\<bar> \<le> 2 ^ 25" by simp
  from binary64_error [OF this] have "\<bar>binary64 (S * 10) - S * 10\<bar> \<le> 1 / 268435456"
    by simp
  with e have "D * 10 \<le> binary64 (S * 10) + 1 / 2"
    and "binary64 (S * 10) + 1 / 2 < D * 10 + 1" by linarith+
  then have "of_int N \<le> binary64 (S * 10) + 1 / 2"
    and "binary64 (S * 10) + 1 / 2 < of_int N + 1" by (simp_all only: N)
  then have f: "\<lfloor>binary64 (S * 10) + 1 / 2\<rfloor> = N" by linarith
  have "\<lfloor>D * 10 + 1 / 2\<rfloor> = N" unfolding N [symmetric] by simp
  with f show ?thesis
    by (simp add: tenth64_def Math_round_def S_def D_def)
qed


lemma whole_sum_list: "list_all whole xs \<Longrightarrow> whole (sum_list xs)"
  by (induction xs) (simp_all add: whole_add, simp add: whole_def)

text \<open>Whole numbers of feet total their decimal sum, rounded to the nearest ten.\<close>

lemma ten64_wholes:
  assumes "list_all whole ys" and "sum_list (map abs ys) \<le> 2 ^ 49"
  shows "ten64 (sum64 ys 0) = Math_round (sum_list ys / 10) * 10"
proof -
  have z: "whole 0" by (simp add: whole_def)
  have "\<bar>0 :: real\<bar> + sum_list (map abs ys) \<le> 2 ^ 53" using assms(2) by simp
  from sum64_whole [OF assms(1) z this] have s: "sum64 ys 0 = sum_list ys" by simp
  have "\<bar>sum_list ys\<bar> \<le> sum_list (map abs ys)" by (rule sum_list_abs)
  with assms(2) have "\<bar>sum_list ys\<bar> \<le> 2 ^ 49" by simp
  from ten64_whole [OF whole_sum_list [OF assms(1)] this] show ?thesis
    unfolding s .
qed

lemma calcDistance_tenths_value:
  assumes "calcDistance c = Ret x"
  shows "tenths x"
proof -
  from calcDistance_tenths [OF assms] obtain k :: int where "x = of_int k / 10" ..
  then show ?thesis by (simp add: tenths_def)
qed

lemma calcElevationGain_whole_value:
  assumes "calcElevationGain c = Ret y"
  shows "whole y"
proof -
  from calcElevationGain_tens [OF assms] obtain k :: int where "y = 10 * of_int k" ..
  then have "y = of_int (10 * k)" by simp
  then show ?thesis unfolding whole_def by (metis floor_of_int)
qed

text \<open>The totals of days given by their statistics, evaluated.\<close>

lemmas totals_eval = binary64_totals_def tenth64_def ten64_def binary64_eval

lemma sample_climb_coords:
  "extractCoords sample_climb
     = Ret (JArr [JArr [JNum 0, JNum 0, JNum 0], JArr [JNum 0, JNum 0, JNum 5]])"
  by (simp add: sample_climb_def extractCoords_def extractCoordsFromGeometry_def or_else_def)

lemma sample_climb_props: "getFirstFeatureProps sample_climb = JNull"
  by (simp add: sample_climb_def getFirstFeatureProps_def)

lemma sample_climb_distance:
  "calcDistance (JArr [JArr [JNum 0, JNum 0, JNum 0], JArr [JNum 0, JNum 0, JNum 5]]) = Ret 0"
proof -
  have "\<forall>p \<in> set [JArr [JNum 0, JNum 0, JNum 0], JArr [JNum 0, JNum 0, JNum 5]]. numeric_point p"
    by (simp add: numeric_point_def)
  from calcDistance_trackLength [OF this] show ?thesis
    by (simp add: distanceBetween_def lon_def lat_def greatCircle_def hav_def radians_def
        Math_round_def)
qed

lemma sample_climb_gain:
  "calcElevationGain (JArr [JArr [JNum 0, JNum 0, JNum 0], JArr [JNum 0, JNum 0, JNum 5]]) = Ret 20"
  by (simp add: calcElevationGain_def indices_def Math_round_def upt_conv_Cons item_def)

lemma sample_climb_day:
  "loadDayGeoJSON t r f i (Inr sample_climb) =
     Ret \<lparr>index = i, filename = f, url = r @ ''/'' @ t @ ''/'' @ f, ok = True,
          geojson = sample_climb, dayNumber = JNum (real i + 1),
          distance = JNum 0, elevation = JNum 20, error = None\<rparr>"
proof -
  have D: "(if overridden (getFirstFeatureProps sample_climb) ''distance_miles''
            then Ret (field (getFirstFeatureProps sample_climb) ''distance_miles'')
            else as_value (calcDistance
              (JArr [JArr [JNum 0, JNum 0, JNum 0], JArr [JNum 0, JNum 0, JNum 5]])))
         = Ret (JNum 0)"
    by (simp add: sample_climb_props overridden_def sample_climb_distance as_value_def)
  have E: "(if overridden (getFirstFeatureProps sample_climb) ''elevation_gain_ft''
            then Ret (field (getFirstFeatureProps sample_climb) ''elevation_gain_ft'')
            else as_value (calcElevationGain
              (JArr [JArr [JNum 0, JNum 0, JNum 0], JArr [JNum 0, JNum 0, JNum 5]])))
         = Ret (JNum 20)"
    by (simp add: sample_climb_props overridden_def sample_climb_gain as_value_def)
  from loadDayGeoJSON_steps [OF sample_climb_coords refl D E, of t r f i] show ?thesis
    by (simp add: sample_climb_props overridden_def)
qed

lemma stated_day_coords:
  "extractCoords (stated_day m e)
     = Ret (JArr [JArr [JNum 0, JNum 0, JNum 0], JArr [JNum 0, JNum 0, JNum 5]])"
  by (simp add: stated_day_def extractCoords_def extractCoordsFromGeometry_def or_else_def)

lemma stated_day_props:
  "getFirstFeatureProps (stated_day m e)
     = JObj [(''distance_miles'', JNum m), (''elevation_gain_ft'', JNum e)]"
  by (simp add: stated_day_def getFirstFeatureProps_def or_else_def)

lemma stated_day_result:
  "loadDayGeoJSON t r f i (Inr (stated_day m e)) =
     Ret \<lparr>index = i, filename = f, url = r @ ''/'' @ t @ ''/'' @ f, ok = True,
          geojson = stated_day m e, dayNumber = JNum (real i + 1),
          distance = JNum m, elevation = JNum e, error = None\<rparr>"
proof -
  let ?c = "JArr [JArr [JNum 0, JNum 0, JNum 0], JArr [JNum 0, JNum 0, JNum 5]]"
  have D: "(if overridden (getFirstFeatureProps (stated_day m e)) ''distance_miles''
            then Ret (field (getFirstFeatureProps (stated_day m e)) ''distance_miles'')
            else as_value (calcDistance ?c)) = Ret (JNum m)"
    by (simp add: stated_day_props overridden_def)
  have E: "(if overridden (getFirstFeatureProps (stated_day m e)) ''elevation_gain_ft''
            then Ret (field (getFirstFeatureProps (stated_day m e)) ''elevation_gain_ft'')
            else as_value (calcElevationGain ?c)) = Ret (JNum e)"
    by (simp add: stated_day_props overridden_def)
  from loadDayGeoJSON_steps [OF stated_day_coords refl D E, of t r f i] show ?thesis
    by (simp add: stated_day_props overridden_def)
qed

lemma stated_day_record: "track_record (stated_day m e) \<and> numeric_overrides (stated_day m e)"
proof
  show "track_record (stated_day m e)"
    by (simp add: stated_day_def track_record_def is_feature_def is_geometry_def is_path_def
        numeric_point_def)
  show "numeric_overrides (stated_day m e)"
    by (simp add: numeric_overrides_def stated_day_props overridden_def)
qed

lemma sample_climb_totals:
  assumes "fetched 0 = Inr sample_climb" and "fetched (Suc 0) = Inr sample_climb"
  shows "snd (aggregate t r [f1, f2] fetched)
     = Ret \<lparr>totalDistance = 0, totalElevation = 40, daysCount = 2\<rparr>"
proof -
  let ?days = "[\<lparr>index = 0, filename = f1, url = r @ ''/'' @ t @ ''/'' @ f1, ok = True,
          geojson = sample_climb, dayNumber = JNum 1,
          distance = JNum 0, elevation = JNum 20, error = None\<rparr>,
        \<lparr>index = 1, filename = f2, url = r @ ''/'' @ t @ ''/'' @ f2, ok = True,
          geojson = sample_climb, dayNumber = JNum 2,
          distance = JNum 0, elevation = JNum 20, error = None\<rparr>]"
  have "snd (aggregate t r [f1, f2] fetched) = tripTotals ?days"
    using assms
    by (simp add: aggregate_def loadAllDays_def upt_conv_Cons sample_climb_day)
  also have "\<dots> = Ret (binary64_totals (map (number \<circ> distance) (filter ok ?days))
                              (map (number \<circ> elevation) (filter ok ?days)))"
    by (rule tripTotals_within [where b = 5])
       (simp_all add: numeric_stats_def stats_within_def number_def)
  also have "\<dots> = Ret \<lparr>totalDistance = 0, totalElevation = 40, daysCount = 2\<rparr>"
    by (simp add: number_def totals_eval)
  finally show ?thesis .
qed

lemma sample_climb_single_rounding:
  "Math_round (((climbs [JArr [JNum 0, JNum 0, JNum 0], JArr [JNum 0, JNum 0, JNum 5]]
       + climbs [JArr [JNum 0, JNum 0, JNum 0], JArr [JNum 0, JNum 0, JNum 5]]) * 3.28084) / 10) * 10
     = 30"
  by (simp add: segmentGain_def Math_round_def)

text \<open>
  C8. When the days that loaded carry numbers, the totals are those of the binary64
  arithmetic of the page, unless a sum leaves the finite numbers: the distances are
  added one after the other from 0, each addition rounded, the sum is multiplied by 10,
  rounded to the nearest integer and divided by 10; the elevations are added likewise
  and their sum is divided by 10, rounded and multiplied by 10; the count is the number
  of days that loaded. The totals are returned when the statistics are at most \<open>2 ^ b\<close>
  in magnitude and \<open>b\<close> plus the number of days is below 1019. A distance that
  \<open>calcDistance\<close> computed is already a whole number of tenths and an elevation that
  \<open>calcElevationGain\<close> computed a whole number of tens, so the totals round twice: two
  days that each climb 5 metres total 40 feet, where one rounding of the 10 metres
  gives 30. For distances of at most one decimal (at most \<open>2 ^ 20\<close> of them, of
  magnitudes summing to at most \<open>2 ^ 20\<close>) the total distance is the binary64 number
  nearest the decimal sum rounded to one decimal, and for whole elevations (of
  magnitudes summing to at most \<open>2 ^ 49\<close>) the total elevation is the decimal sum
  rounded to the nearest ten.
\<close>

theorem tripTotals_double_rounding:
  assumes "\<forall>d \<in> set days. ok d \<longrightarrow> numeric_stats d"
  shows "(tripTotals days
            = Ret (binary64_totals (map (number \<circ> distance) (filter ok days))
                                   (map (number \<circ> elevation) (filter ok days)))
          \<or> tripTotals days = Unmodelled)
       \<and> ((\<forall>d \<in> set days. ok d \<longrightarrow> stats_within b d) \<and> b + length days < 1019 \<longrightarrow>
            tripTotals days
              = Ret (binary64_totals (map (number \<circ> distance) (filter ok days))
                                     (map (number \<circ> elevation) (filter ok days))))
       \<and> (calcDistance c = Ret x \<longrightarrow> (\<exists>k :: int. x = of_int k / 10) \<and> tenths x)
       \<and> (calcElevationGain c' = Ret y \<longrightarrow> (\<exists>k :: int. y = 10 * of_int k) \<and> whole y)
       \<and> snd (aggregate t r [f1, f2] (\<lambda>i. Inr sample_climb))
           = Ret \<lparr>totalDistance = 0, totalElevation = 40, daysCount = 2\<rparr>
       \<and> Math_round (((climbs [JArr [JNum 0, JNum 0, JNum 0], JArr [JNum 0, JNum 0, JNum 5]]
             + climbs [JArr [JNum 0, JNum 0, JNum 0], JArr [JNum 0, JNum 0, JNum 5]]) * 3.28084) / 10)
           * 10 = 30
       \<and> (list_all tenths xs \<and> sum_list (map abs xs) \<le> 2 ^ 20 \<and> length xs \<le> 2 ^ 20 \<longrightarrow>
            totalDistance (binary64_totals xs ys)
              = binary64 (totalDistance (decimal_totals xs ys)))
       \<and> (list_all whole ys \<and> sum_list (map abs ys) \<le> 2 ^ 49 \<longrightarrow>
            totalElevation (binary64_totals xs ys) = totalElevation (decimal_totals xs ys))"
proof -
  note n = tripTotals_numeric [OF assms]
  have w: "(\<forall>d \<in> set days. ok d \<longrightarrow> stats_within b d) \<and> b + length days < 1019 \<longrightarrow>
            tripTotals days
              = Ret (binary64_totals (map (number \<circ> distance) (filter ok days))
                                     (map (number \<circ> elevation) (filter ok days)))"
    using tripTotals_within [OF assms] by blast
  have cd: "calcDistance c = Ret x \<longrightarrow> (\<exists>k :: int. x = of_int k / 10) \<and> tenths x"
    using calcDistance_tenths [of c x] calcDistance_tenths_value [of c x] by blast
  have ce: "calcElevationGain c' = Ret y \<longrightarrow> (\<exists>k :: int. y = 10 * of_int k) \<and> whole y"
    using calcElevationGain_tens [of c' y] calcElevationGain_whole_value [of c' y] by blast
  have s: "snd (aggregate t r [f1, f2] (\<lambda>i. Inr sample_climb))
           = Ret \<lparr>totalDistance = 0, totalElevation = 40, daysCount = 2\<rparr>"
    by (rule sample_climb_totals) simp_all
  have dx: "list_all tenths xs \<and> sum_list (map abs xs) \<le> 2 ^ 20 \<and> length xs \<le> 2 ^ 20 \<longrightarrow>
            totalDistance (binary64_totals xs ys)
              = binary64 (totalDistance (decimal_totals xs ys))"
    using tenth64_tenths [of xs] by (simp add: binary64_totals_def decimal_totals_def)
  have dy: "list_all whole ys \<and> sum_list (map abs ys) \<le> 2 ^ 49 \<longrightarrow>
            totalElevation (binary64_totals xs ys) = totalElevation (decimal_totals xs ys)"
    using ten64_wholes [of ys] by (simp add: binary64_totals_def decimal_totals_def)
  from n w cd ce s sample_climb_single_rounding dx dy
  show ?thesis by blast
qed

theorem tripTotals_double_rounding_witness:
  "list_all numeric_stats (filter ok
       [\<lparr>index = 0, filename = ''a'', url = ''u'', ok = True, geojson = JNull,
          dayNumber = JNum 1, distance = JNum 14.2, elevation = JNum 3804, error = None\<rparr>,
        \<lparr>index = 1, filename = ''b'', url = ''v'', ok = False, geojson = JNull,
          dayNumber = JNum 2, distance = JNum 0, elevation = JNum 0, error = Some TypeError\<rparr>,
        \<lparr>index = 2, filename = ''c'', url = ''w'', ok = True, geojson = JNull,
          dayNumber = JNum 3, distance = JNum 11.7, elevation = JNum 3804, error = None\<rparr>])
   \<and> list_all (stats_within 12) (filter ok
       [\<lparr>index = 0, filename = ''a'', url = ''u'', ok = True, geojson = JNull,
          dayNumber = JNum 1, distance = JNum 14.2, elevation = JNum 3804, error = None\<rparr>,
        \<lparr>index = 1, filename = ''b'', url = ''v'', ok = False, geojson = JNull,
          dayNumber = JNum 2, distance = JNum 0, elevation = JNum 0, error = Some TypeError\<rparr>,
        \<lparr>index = 2, filename = ''c'', url = ''w'', ok = True, geojson = JNull,
          dayNumber = JNum 3, distance = JNum 11.7, elevation = JNum 3804, error = None\<rparr>])
   \<and> tripTotals
       [\<lparr>index = 0, filename = ''a'', url = ''u'', ok = True, geojson = JNull,
          dayNumber = JNum 1, distance = JNum 14.2, elevation = JNum 3804, error = None\<rparr>,
        \<lparr>index = 1, filename = ''b'', url = ''v'', ok = False, geojson = JNull,
          dayNumber = JNum 2, distance = JNum 0, elevation = JNum 0, error = Some TypeError\<rparr>,
        \<lparr>index = 2, filename = ''c'', url = ''w'', ok = True, geojson = JNull,
          dayNumber = JNum 3, distance = JNum 11.7, elevation = JNum 3804, error = None\<rparr>]
       = Ret (binary64_totals [14.2, 11.7] [3804, 3804])
   \<and> list_all tenths [14.2, 11.7] \<and> list_all whole [3804, 3804]
   \<and> binary64_totals [14.2, 11.7] [3804, 3804]
       = \<lparr>totalDistance = binary64 25.9, totalElevation = 7610, daysCount = 2\<rparr>
   \<and> calcDistance (JArr [JArr [JNum 0, JNum 0, JNum 0], JArr [JNum 0, JNum 0, JNum 5]]) = Ret 0
   \<and> tenths 0
   \<and> calcElevationGain (JArr [JArr [JNum 0, JNum 0, JNum 0], JArr [JNum 0, JNum 0, JNum 5]])
       = Ret 20
   \<and> whole 20"
proof -
  let ?days = "[\<lparr>index = 0, filename = ''a'', url = ''u'', ok = True, geojson = JNull,
          dayNumber = JNum 1, distance = JNum 14.2, elevation = JNum 3804, error = None\<rparr>,
        \<lparr>index = 1, filename = ''b'', url = ''v'', ok = False, geojson = JNull,
          dayNumber = JNum 2, distance = JNum 0, elevation = JNum 0, error = Some TypeError\<rparr>,
        \<lparr>index = 2, filename = ''c'', url = ''w'', ok = True, geojson = JNull,
          dayNumber = JNum 3, distance = JNum 11.7, elevation = JNum 3804, error = None\<rparr>]"
  let ?c = "JArr [JArr [JNum 0, JNum 0, JNum 0], JArr [JNum 0, JNum 0, JNum 5]]"
  have h: "\<forall>d \<in> set ?days. ok d \<longrightarrow> numeric_stats d"
    by (simp add: numeric_stats_def)
  have 0: "list_all numeric_stats (filter ok ?days)"
    by (simp add: numeric_stats_def)
  have 4: "list_all (stats_within 12) (filter ok ?days)"
    by (simp add: stats_within_def number_def)
  have g: "(\<forall>d \<in> set ?days. ok d \<longrightarrow> stats_within 12 d) \<and> 12 + length ?days < 1019"
    by (simp add: stats_within_def number_def)
  have tx: "list_all tenths [14.2, 11.7 :: real]" by (simp add: tenths_def)
  have wy: "list_all whole [3804, 3804 :: real]" by (simp add: whole_def)
  have gx: "list_all tenths [14.2, 11.7 :: real] \<and> sum_list (map abs [14.2, 11.7 :: real]) \<le> 2 ^ 20
      \<and> length [14.2, 11.7 :: real] \<le> 2 ^ 20"
    using tx by simp
  have gy: "list_all whole [3804, 3804 :: real] \<and> sum_list (map abs [3804, 3804 :: real]) \<le> 2 ^ 49"
    using wy by simp
  note t = tripTotals_double_rounding [OF h, where c = ?c and x = 0 and c' = ?c and y = 20
      and b = 12 and xs = "[14.2, 11.7]" and ys = "[3804, 3804]"]
  from t g have "tripTotals ?days
      = Ret (binary64_totals (map (number \<circ> distance) (filter ok ?days))
                             (map (number \<circ> elevation) (filter ok ?days)))"
    by blast
  then have 1: "tripTotals ?days = Ret (binary64_totals [14.2, 11.7] [3804, 3804])"
    by (simp add: number_def)
  from t gx have "totalDistance (binary64_totals [14.2, 11.7] [3804, 3804])
      = binary64 (totalDistance (decimal_totals [14.2, 11.7] [3804, 3804]))"
    by blast
  then have 5: "totalDistance (binary64_totals [14.2, 11.7] [3804, 3804]) = binary64 25.9"
    by (simp add: decimal_totals_def Math_round_def)
  from t gy have "totalElevation (binary64_totals [14.2, 11.7] [3804, 3804])
      = totalElevation (decimal_totals [14.2, 11.7] [3804, 3804])"
    by blast
  then have 6: "totalElevation (binary64_totals [14.2, 11.7] [3804, 3804]) = 7610"
    by (simp add: decimal_totals_def Math_round_def)
  have 7: "daysCount (binary64_totals [14.2, 11.7] [3804, 3804]) = 2"
    by (simp add: binary64_totals_def)
  from 5 6 7 have 8: "binary64_totals [14.2, 11.7] [3804, 3804]
       = \<lparr>totalDistance = binary64 25.9, totalElevation = 7610, daysCount = 2\<rparr>"
    by (cases "binary64_totals [14.2, 11.7] [3804, 3804]") simp
  have 2: "tenths 0"
    using t sample_climb_distance by blast
  have 3: "whole 20"
    using t sample_climb_gain by blast
  from 0 4 1 tx wy 8 2 3 sample_climb_distance sample_climb_gain show ?thesis by blast
qed

text \<open>
  The sum is not the decimal one. Two days whose files state 0.01 and 2.34 miles total
  \<open>2.3499999999999996\<close> in binary64 arithmetic, below the tie, and the page shows the
  binary64 number nearest 2.3, where the decimal sum 2.35 rounded to one decimal is 2.4.
\<close>

theorem tripTotals_tie_counterexample:
  "snd (aggregate ''jmt'' ''../data'' [''day-1.geojson'', ''day-2.geojson'']
          (\<lambda>i. if i = 0 then Inr (stated_day 0.01 0) else Inr (stated_day 2.34 0)))
     = Ret \<lparr>totalDistance = binary64 2.3, totalElevation = 0, daysCount = 2\<rparr>
   \<and> decimal_totals [0.01, 2.34] [0, 0]
     = \<lparr>totalDistance = 2.4, totalElevation = 0, daysCount = 2\<rparr>
   \<and> binary64 2.3 \<noteq> binary64 2.4
   \<and> binary64 (binary64 0.01 + binary64 2.34) < 2.35"
proof -
  let ?days = "[\<lparr>index = 0, filename = ''day-1.geojson'', url = ''../data/jmt/day-1.geojson'',
          ok = True, geojson = stated_day 0.01 0, dayNumber = JNum 1,
          distance = JNum 0.01, elevation = JNum 0, error = None\<rparr>,
        \<lparr>index = 1, filename = ''day-2.geojson'', url = ''../data/jmt/day-2.geojson'',
          ok = True, geojson = stated_day 2.34 0, dayNumber = JNum 2,
          distance = JNum 2.34, elevation = JNum 0, error = None\<rparr>]"
  have "snd (aggregate ''jmt'' ''../data'' [''day-1.geojson'', ''day-2.geojson'']
          (\<lambda>i. if i = 0 then Inr (stated_day 0.01 0) else Inr (stated_day 2.34 0)))
      = tripTotals ?days"
    by (simp add: aggregate_def loadAllDays_def upt_conv_Cons stated_day_result)
  also have "\<dots> = Ret (binary64_totals (map (number \<circ> distance) (filter ok ?days))
                              (map (number \<circ> elevation) (filter ok ?days)))"
    by (rule tripTotals_within [where b = 2])
       (simp_all add: numeric_stats_def stats_within_def number_def)
  also have "\<dots> = Ret \<lparr>totalDistance = binary64 2.3, totalElevation = 0, daysCount = 2\<rparr>"
    by (simp add: number_def totals_eval)
  finally have "snd (aggregate ''jmt'' ''../data'' [''day-1.geojson'', ''day-2.geojson'']
          (\<lambda>i. if i = 0 then Inr (stated_day 0.01 0) else Inr (stated_day 2.34 0)))
     = Ret \<lparr>totalDistance = binary64 2.3, totalElevation = 0, daysCount = 2\<rparr>" .
  moreover have "decimal_totals [0.01, 2.34] [0, 0]
     = \<lparr>totalDistance = 2.4, totalElevation = 0, daysCount = 2\<rparr>"
    by (simp add: decimal_totals_def Math_round_def)
  moreover have "binary64 2.3 \<noteq> binary64 2.4"
    by (simp add: binary64_eval)
  moreover have "binary64 (binary64 0.01 + binary64 2.34) < 2.35"
    by (simp add: binary64_eval)
  ultimately show ?thesis by blast
qed

section \<open>Properties of the aggregation\<close>

lemma same_res_load:
  "same_res (loadDayGeoJSON t r f i x) (loadDayGeoJSON t' r' f' i' x)"
proof (cases x)
  case (Inl e)
  then show ?thesis by (simp add: loadDayGeoJSON_failed same_stats_def)
next
  case (Inr g)
  show ?thesis
  proof (cases "extractCoords g")
    case c: (Ret c)
    let ?props = "getFirstFeatureProps g"
    let ?D = "if overridden ?props ''distance_miles'' then Ret (field ?props ''distance_miles'')
              else as_value (calcDistance c)"
    let ?E = "if overridden ?props ''elevation_gain_ft'' then Ret (field ?props ''elevation_gain_ft'')
              else as_value (calcElevationGain c)"
    show ?thesis
    proof (cases ?D)
      case D: (Ret dv)
      show ?thesis
      proof (cases ?E)
        case E: (Ret ev)
        show ?thesis
          unfolding Inr loadDayGeoJSON_steps [OF c refl D E]
          by (simp add: same_stats_def)
      next
        case E: (Throw e)
        show ?thesis
          unfolding Inr using D E
          by (simp add: loadDayGeoJSON_def attempt_def Let_def c same_stats_def)
      next
        case E: Unmodelled
        show ?thesis
          unfolding Inr using D E
          by (simp add: loadDayGeoJSON_def attempt_def Let_def c)
      qed
    next
      case D: (Throw e)
      show ?thesis
        unfolding Inr using D
        by (simp add: loadDayGeoJSON_def attempt_def Let_def c same_stats_def)
    next
      case D: Unmodelled
      show ?thesis
        unfolding Inr using D
        by (simp add: loadDayGeoJSON_def attempt_def Let_def c)
    qed
  next
    case (Throw e)
    then show ?thesis
      unfolding Inr by (simp add: loadDayGeoJSON_def attempt_def Let_def same_stats_def)
  next
    case Unmodelled
    then show ?thesis
      unfolding Inr by (simp add: loadDayGeoJSON_def attempt_def Let_def)
  qed
qed

lemma failed_day_load: "failed_day (loadDayGeoJSON t r f i x) \<longleftrightarrow> isl x"
proof (cases x)
  case (Inl e)
  then show ?thesis by (simp add: loadDayGeoJSON_failed)
next
  case (Inr g)
  then show ?thesis
    using loadDayGeoJSON_fetched_ok [of t r f i g]
    by (cases "loadDayGeoJSON t r f i (Inr g)") auto
qed

lemma tripTotals_filter: "tripTotals (filter ok ds) = tripTotals ds"
  by (simp add: tripTotals_def Let_def)

lemma sumDays_cong:
  assumes "list_all2 same_stats ds ds'"
  shows "sumDays ds td te = sumDays ds' td te"
  using assms
  by (induction arbitrary: td te rule: list_all2_induct)
     (auto simp: same_stats_def split: res.splits)

lemma filter_ok_cong:
  assumes "list_all2 same_stats ds ds'"
  shows "list_all2 same_stats (filter ok ds) (filter ok ds')"
  using assms
  by (induction rule: list_all2_induct) (auto simp: same_stats_def)

lemma tripTotals_cong:
  assumes "list_all2 same_stats ds ds'"
  shows "tripTotals ds = tripTotals ds'"
proof -
  from filter_ok_cong [OF assms] have f: "list_all2 same_stats (filter ok ds) (filter ok ds')" .
  then have "length (filter ok ds) = length (filter ok ds')"
    by (rule list_all2_lengthD)
  with sumDays_cong [OF f] show ?thesis by (simp add: tripTotals_def Let_def)
qed

lemma collect_cong:
  assumes "list_all2 same_res xs ys"
  shows "(\<exists>ds ds'. collect xs = Ret ds \<and> collect ys = Ret ds' \<and> list_all2 same_stats ds ds')
       \<or> (\<exists>e. collect xs = Throw e \<and> collect ys = Throw e)
       \<or> (collect xs = Unmodelled \<and> collect ys = Unmodelled)"
  using assms
proof (induction rule: list_all2_induct)
  case Nil
  then show ?case by simp
next
  case (Cons x xs y ys)
  show ?case
  proof (cases x)
    case (Ret d)
    with Cons.hyps(1) obtain d' where d': "y = Ret d'" "same_stats d d'"
      by (cases y) auto
    from Cons.IH show ?thesis
      unfolding Ret d'(1) using d'(2) by auto
  next
    case (Throw e)
    with Cons.hyps(1) have "y = Throw e" by (cases y) auto
    with Throw show ?thesis by simp
  next
    case Unmodelled
    with Cons.hyps(1) have "y = Unmodelled" by (cases y) auto
    with Unmodelled show ?thesis by simp
  qed
qed

lemma totals_cong:
  assumes "list_all2 same_res xs ys"
  shows "bind_res (collect xs) tripTotals = bind_res (collect ys) tripTotals"
  using collect_cong [OF assms] by (auto simp: tripTotals_cong)

lemma totals_drop_failed:
  "bind_res (collect (filter (\<lambda>x. \<not> failed_day x) xs)) tripTotals
     = bind_res (collect xs) tripTotals"
proof -
  have "bind_res (collect (filter (\<lambda>x. \<not> failed_day x) xs)) (\<lambda>ds. Ret (filter ok ds))
      = bind_res (collect xs) (\<lambda>ds. Ret (filter ok ds))"
  proof (induction xs)
    case Nil
    then show ?case by simp
  next
    case (Cons x xs)
    show ?case
    proof (cases x)
      case (Ret d)
      with Cons show ?thesis
        by (cases "collect xs"; cases "collect (filter (\<lambda>x. \<not> failed_day x) xs)") auto
    next
      case (Throw e)
      then show ?thesis by simp
    next
      case Unmodelled
      then show ?thesis by simp
    qed
  qed
  moreover have "bind_res (collect zs) tripTotals
      = bind_res (bind_res (collect zs) (\<lambda>ds. Ret (filter ok ds))) tripTotals" for zs
    by (cases "collect zs") (simp_all add: tripTotals_filter)
  ultimately show ?thesis by metis
qed


lemma loadAllDays_drop_failed:
  "filter (\<lambda>x. \<not> failed_day x) (loadAllDays t r files fetched)
     = map (\<lambda>i. loadDayGeoJSON t r (files ! i) i (fetched i)) (succeeded fetched (length files))"
  by (simp add: loadAllDays_def succeeded_def filter_map comp_def failed_day_load)

lemma loadAllDays_succeeded:
  "list_all2 same_res
     (map (\<lambda>i. loadDayGeoJSON t r (files ! i) i (fetched i)) (succeeded fetched (length files)))
     (loadAllDays t r (map (nth files) (succeeded fetched (length files)))
        (\<lambda>j. fetched (succeeded fetched (length files) ! j)))"
  by (simp add: list_all2_conv_all_nth loadAllDays_def same_res_load)

lemma aggregate_totals_succeeded:
  "snd (aggregate t r files fetched)
     = snd (aggregate t r (map (nth files) (succeeded fetched (length files)))
              (\<lambda>j. fetched (succeeded fetched (length files) ! j)))"
proof -
  have "snd (aggregate t r files fetched)
      = bind_res (collect (filter (\<lambda>x. \<not> failed_day x) (loadAllDays t r files fetched)))
          tripTotals"
    by (simp add: aggregate_def Let_def totals_drop_failed)
  also have "\<dots> = bind_res (collect (loadAllDays t r
        (map (nth files) (succeeded fetched (length files)))
        (\<lambda>j. fetched (succeeded fetched (length files) ! j)))) tripTotals"
    unfolding loadAllDays_drop_failed using loadAllDays_succeeded by (rule totals_cong)
  finally show ?thesis by (simp add: aggregate_def Let_def)
qed

lemma collect_Ret: "collect xs = Ret ds \<Longrightarrow> xs = map Ret ds"
  by (induction xs arbitrary: ds) (auto split: res.splits)

lemma tripTotals_count: "tripTotals ds = Ret tot \<Longrightarrow> daysCount tot = length (filter ok ds)"
  by (auto simp: tripTotals_def Let_def bind_res_Ret)

lemma aggregate_count:
  assumes "snd (aggregate t r files fetched) = Ret tot"
  shows "daysCount tot = length (succeeded fetched (length files))"
proof -
  from assms obtain ds where ds: "collect (loadAllDays t r files fetched) = Ret ds"
    and tot: "tripTotals ds = Ret tot"
    by (auto simp: aggregate_def Let_def bind_res_Ret)
  from collect_Ret [OF ds] have xs: "loadAllDays t r files fetched = map Ret ds" .
  have "length (filter ok ds) = length (filter (\<lambda>x. \<not> failed_day x) (map Ret ds))"
    by (simp add: filter_map comp_def)
  also have "\<dots> = length (succeeded fetched (length files))"
    unfolding xs [symmetric] loadAllDays_drop_failed by simp
  finally show ?thesis using tripTotals_count [OF tot] by simp
qed

lemma loadDayGeoJSON_numeric:
  assumes "track_record g" and "numeric_overrides g"
  shows "\<exists>d. loadDayGeoJSON t r f i (Inr g) = Ret d \<and> numeric_stats d"
proof -
  from assms(1) obtain ps where ps: "extractCoords g = Ret (JArr ps)"
    and dist: "as_value (calcDistance (JArr ps)) = Ret (JNum (Math_round (trackLength ps * 10) / 10))"
    and ele: "as_value (calcElevationGain (JArr ps))
           = Ret (JNum (Math_round ((climbs ps * 3.28084) / 10) * 10))"
    by (rule record_stats)
  let ?props = "getFirstFeatureProps g"
  define dv where "dv = (if overridden ?props ''distance_miles'' then field ?props ''distance_miles''
      else JNum (Math_round (trackLength ps * 10) / 10))"
  define ev where "ev = (if overridden ?props ''elevation_gain_ft'' then field ?props ''elevation_gain_ft''
      else JNum (Math_round ((climbs ps * 3.28084) / 10) * 10))"
  have D: "(if overridden ?props ''distance_miles'' then Ret (field ?props ''distance_miles'')
          else as_value (calcDistance (JArr ps))) = Ret dv"
    by (simp add: dv_def dist)
  have E: "(if overridden ?props ''elevation_gain_ft'' then Ret (field ?props ''elevation_gain_ft'')
          else as_value (calcElevationGain (JArr ps))) = Ret ev"
    by (simp add: ev_def ele)
  have "\<exists>x. dv = JNum x"
  proof (cases "overridden ?props ''distance_miles''")
    case True
    with assms(2) show ?thesis
      by (cases "field ?props ''distance_miles''")
         (simp_all add: dv_def numeric_overrides_def Let_def)
  next
    case False
    then have "dv = JNum (Math_round (trackLength ps * 10) / 10)" by (simp add: dv_def)
    then show ?thesis by blast
  qed
  moreover have "\<exists>y. ev = JNum y"
  proof (cases "overridden ?props ''elevation_gain_ft''")
    case True
    with assms(2) show ?thesis
      by (cases "field ?props ''elevation_gain_ft''")
         (simp_all add: ev_def numeric_overrides_def Let_def)
  next
    case False
    then have "ev = JNum (Math_round ((climbs ps * 3.28084) / 10) * 10)" by (simp add: ev_def)
    then show ?thesis by blast
  qed
  ultimately show ?thesis
    unfolding loadDayGeoJSON_steps [OF ps refl D E]
    by (auto simp: numeric_stats_def)
qed

lemma collect_all:
  assumes "\<forall>x \<in> set xs. \<exists>d. x = Ret d \<and> P d"
  shows "\<exists>ds. collect xs = Ret ds \<and> (\<forall>d \<in> set ds. P d)"
  using assms by (induction xs) auto

lemma inj_Ret: "inj Ret"
  by (simp add: inj_def)

lemma collect_map_Ret: "collect (map Ret ds) = Ret ds"
  by (induction ds) simp_all

lemma filter_nth:
  "filter P xs = map (nth xs) (filter (\<lambda>i. P (xs ! i)) [0 ..< length xs])"
proof -
  have "filter P xs = filter P (map (nth xs) [0 ..< length xs])" by (simp add: map_nth)
  also have "\<dots> = map (nth xs) (filter (P \<circ> nth xs) [0 ..< length xs])"
    by (simp only: filter_map)
  finally show ?thesis by (simp add: comp_def)
qed

text \<open>The days that the totals add are those at the positions whose request
  succeeded.\<close>

lemma loaded_days:
  assumes "loadAllDays t r files fetched = map Ret ds"
  shows "length ds = length files"
    and "filter ok ds = map (nth ds) (succeeded fetched (length files))"
proof -
  from assms have "length (map Ret ds) = length (loadAllDays t r files fetched)" by simp
  then show l: "length ds = length files" by (simp add: loadAllDays_def)
  have "ok (ds ! i) \<longleftrightarrow> \<not> isl (fetched i)" if "i < length files" for i
  proof -
    from that l have "Ret (ds ! i) = loadAllDays t r files fetched ! i"
      unfolding assms by simp
    also have "\<dots> = loadDayGeoJSON t r (files ! i) i (fetched i)"
      using that by (simp add: loadAllDays_def)
    finally have "failed_day (Ret (ds ! i)) \<longleftrightarrow> isl (fetched i)"
      by (simp only: failed_day_load)
    then show ?thesis by auto
  qed
  then have "filter (\<lambda>i. ok (ds ! i)) [0 ..< length ds]
      = filter (\<lambda>i. \<not> isl (fetched i)) [0 ..< length files]"
    unfolding l by (intro filter_cong) simp_all
  then show "filter ok ds = map (nth ds) (succeeded fetched (length files))"
    unfolding succeeded_def by (subst filter_nth) simp
qed

lemma aggregate_loaded:
  assumes "fst (aggregate t r files fetched) = map Ret ds"
  shows "loadAllDays t r files fetched = map Ret ds"
    and "snd (aggregate t r files fetched) = tripTotals ds"
proof -
  from assms show l: "loadAllDays t r files fetched = map Ret ds"
    by (simp add: aggregate_def Let_def)
  show "snd (aggregate t r files fetched) = tripTotals ds"
    by (simp add: aggregate_def Let_def l collect_map_Ret)
qed

lemma aggregate_sums:
  assumes "fst (aggregate t r files fetched) = map Ret ds"
    and "\<forall>i \<in> set (succeeded fetched (length files)). numeric_stats (ds ! i)"
  shows "snd (aggregate t r files fetched)
       = Ret (binary64_totals
           (map (\<lambda>i. number (distance (ds ! i))) (succeeded fetched (length files)))
           (map (\<lambda>i. number (elevation (ds ! i))) (succeeded fetched (length files))))
     \<or> snd (aggregate t r files fetched) = Unmodelled"
proof -
  note l = aggregate_loaded [OF assms(1)]
  note f = loaded_days(2) [OF l(1)]
  have "\<forall>d \<in> set (filter ok ds). numeric_stats d"
    unfolding f using assms(2) by simp
  then have "\<forall>d \<in> set ds. ok d \<longrightarrow> numeric_stats d" by simp
  from tripTotals_numeric [OF this] show ?thesis
    unfolding l(2) f by (simp add: comp_def)
qed

lemma aggregate_within:
  assumes "\<forall>i < length files. \<forall>g. fetched i = Inr g \<longrightarrow> track_record g \<and> numeric_overrides g"
    and "\<forall>i < length files. \<forall>d. fst (aggregate t r files fetched) ! i = Ret d
           \<longrightarrow> stats_within b d"
    and "b + length files < 1019"
  shows "\<exists>ds. fst (aggregate t r files fetched) = map Ret ds
     \<and> snd (aggregate t r files fetched)
       = Ret (binary64_totals
           (map (\<lambda>i. number (distance (ds ! i))) (succeeded fetched (length files)))
           (map (\<lambda>i. number (elevation (ds ! i))) (succeeded fetched (length files))))"
proof -
  have "\<forall>x \<in> set (loadAllDays t r files fetched). \<exists>d. x = Ret d \<and> numeric_stats d"
  proof
    fix x assume "x \<in> set (loadAllDays t r files fetched)"
    then obtain i where i: "i < length files"
      and x: "x = loadDayGeoJSON t r (files ! i) i (fetched i)"
      by (auto simp: loadAllDays_def)
    show "\<exists>d. x = Ret d \<and> numeric_stats d"
    proof (cases "fetched i")
      case (Inl e)
      then show ?thesis unfolding x by (simp add: loadDayGeoJSON_failed numeric_stats_def)
    next
      case (Inr g)
      with assms(1) i have "track_record g" "numeric_overrides g" by auto
      from loadDayGeoJSON_numeric [OF this] show ?thesis unfolding x Inr by blast
    qed
  qed
  from collect_all [OF this] obtain ds
    where c: "collect (loadAllDays t r files fetched) = Ret ds"
      and n: "\<forall>d \<in> set ds. numeric_stats d" by blast
  from collect_Ret [OF c] have l: "loadAllDays t r files fetched = map Ret ds" .
  then have a: "fst (aggregate t r files fetched) = map Ret ds"
    by (simp add: aggregate_def Let_def)
  note len = loaded_days(1) [OF l]
  note f = loaded_days(2) [OF l]
  have w: "\<forall>d \<in> set ds. ok d \<longrightarrow> stats_within b d"
  proof (intro ballI impI)
    fix d assume "d \<in> set ds"
    then obtain i where i: "i < length ds" and d: "d = ds ! i"
      by (auto simp: in_set_conv_nth)
    from i have "fst (aggregate t r files fetched) ! i = Ret d"
      unfolding a d by simp
    with assms(2) i len show "stats_within b d" by simp
  qed
  from n have n': "\<forall>d \<in> set ds. ok d \<longrightarrow> numeric_stats d" by simp
  have "b + length ds < 1019" using assms(3) len by simp
  from tripTotals_within [OF n' w this]
  have "snd (aggregate t r files fetched)
       = Ret (binary64_totals
           (map (\<lambda>i. number (distance (ds ! i))) (succeeded fetched (length files)))
           (map (\<lambda>i. number (elevation (ds ! i))) (succeeded fetched (length files))))"
    unfolding aggregate_loaded(2) [OF a] f by (simp add: comp_def)
  with a show ?thesis by blast
qed

text \<open>
  C1. For every day list that is not empty and every outcome of the requests, the
  per-day results are as many as the day files and in their order. A request that
  failed gives a result with \<open>ok = false\<close>, distance 0, elevation 0, the day number
  position plus one and the exception as its error; a request that succeeded gives
  \<open>ok = true\<close>. The totals are those of the aggregation run on the successfully fetched
  days alone, and the count is the number of those days. When the results of those days
  carry numbers, the total distance and the total elevation are the binary64 sums of
  their distances and of their elevations, in the order of the day list, rounded to one
  decimal and to the nearest ten, unless a sum leaves the finite numbers. The totals are
  produced, whatever failed, when the fetched payloads are track records with numeric
  overrides, the statistics are at most \<open>2 ^ b\<close> in magnitude and \<open>b\<close> plus the number
  of day files is below 1019.
\<close>

theorem aggregate_partial_failure:
  assumes "files \<noteq> []"
  shows "length (fst (aggregate t r files fetched)) = length files
   \<and> (\<forall>i < length files. fst (aggregate t r files fetched) ! i
          = loadDayGeoJSON t r (files ! i) i (fetched i))
   \<and> (\<forall>i < length files. \<forall>e. fetched i = Inl e \<longrightarrow>
        fst (aggregate t r files fetched) ! i
          = Ret \<lparr>index = i, filename = files ! i, url = r @ ''/'' @ t @ ''/'' @ files ! i,
                 ok = False, geojson = JNull, dayNumber = JNum (real i + 1),
                 distance = JNum 0, elevation = JNum 0, error = Some e\<rparr>)
   \<and> (\<forall>i < length files. \<forall>g d. fetched i = Inr g
          \<and> fst (aggregate t r files fetched) ! i = Ret d \<longrightarrow>
        ok d \<and> index d = i \<and> filename d = files ! i)
   \<and> snd (aggregate t r files fetched)
       = snd (aggregate t r (map (nth files) (succeeded fetched (length files)))
                (\<lambda>j. fetched (succeeded fetched (length files) ! j)))
   \<and> (\<forall>tot. snd (aggregate t r files fetched) = Ret tot \<longrightarrow>
        daysCount tot = length (succeeded fetched (length files)))
   \<and> (\<forall>ds. fst (aggregate t r files fetched) = map Ret ds
          \<and> (\<forall>i \<in> set (succeeded fetched (length files)). numeric_stats (ds ! i)) \<longrightarrow>
        snd (aggregate t r files fetched)
          = Ret (binary64_totals
              (map (\<lambda>i. number (distance (ds ! i))) (succeeded fetched (length files)))
              (map (\<lambda>i. number (elevation (ds ! i))) (succeeded fetched (length files))))
        \<or> snd (aggregate t r files fetched) = Unmodelled)
   \<and> ((\<forall>i < length files. \<forall>g. fetched i = Inr g \<longrightarrow> track_record g \<and> numeric_overrides g)
        \<and> (\<forall>i < length files. \<forall>d. fst (aggregate t r files fetched) ! i = Ret d
              \<longrightarrow> stats_within b d)
        \<and> b + length files < 1019 \<longrightarrow>
        (\<exists>ds. fst (aggregate t r files fetched) = map Ret ds
           \<and> snd (aggregate t r files fetched)
             = Ret (binary64_totals
                 (map (\<lambda>i. number (distance (ds ! i))) (succeeded fetched (length files)))
                 (map (\<lambda>i. number (elevation (ds ! i))) (succeeded fetched (length files))))))"
proof -
  have days: "fst (aggregate t r files fetched) = loadAllDays t r files fetched"
    by (simp add: aggregate_def Let_def)
  have a: "length (fst (aggregate t r files fetched)) = length files"
    by (simp add: days loadAllDays_def)
  have b: "\<forall>i < length files. fst (aggregate t r files fetched) ! i
          = loadDayGeoJSON t r (files ! i) i (fetched i)"
    by (simp add: days loadAllDays_def)
  have c: "\<forall>i < length files. \<forall>e. fetched i = Inl e \<longrightarrow>
        fst (aggregate t r files fetched) ! i
          = Ret \<lparr>index = i, filename = files ! i, url = r @ ''/'' @ t @ ''/'' @ files ! i,
                 ok = False, geojson = JNull, dayNumber = JNum (real i + 1),
                 distance = JNum 0, elevation = JNum 0, error = Some e\<rparr>"
    using b by (simp add: loadDayGeoJSON_failed)
  have d: "\<forall>i < length files. \<forall>g d. fetched i = Inr g
          \<and> fst (aggregate t r files fetched) ! i = Ret d \<longrightarrow>
        ok d \<and> index d = i \<and> filename d = files ! i"
    using b loadDayGeoJSON_fetched_ok by auto
  note e = aggregate_totals_succeeded [of t r files fetched]
  have f: "\<forall>tot. snd (aggregate t r files fetched) = Ret tot \<longrightarrow>
        daysCount tot = length (succeeded fetched (length files))"
    using aggregate_count by blast
  have g: "\<forall>ds. fst (aggregate t r files fetched) = map Ret ds
          \<and> (\<forall>i \<in> set (succeeded fetched (length files)). numeric_stats (ds ! i)) \<longrightarrow>
        snd (aggregate t r files fetched)
          = Ret (binary64_totals
              (map (\<lambda>i. number (distance (ds ! i))) (succeeded fetched (length files)))
              (map (\<lambda>i. number (elevation (ds ! i))) (succeeded fetched (length files))))
        \<or> snd (aggregate t r files fetched) = Unmodelled"
    using aggregate_sums by blast
  have h: "(\<forall>i < length files. \<forall>g. fetched i = Inr g \<longrightarrow> track_record g \<and> numeric_overrides g)
        \<and> (\<forall>i < length files. \<forall>d. fst (aggregate t r files fetched) ! i = Ret d
              \<longrightarrow> stats_within b d)
        \<and> b + length files < 1019 \<longrightarrow>
        (\<exists>ds. fst (aggregate t r files fetched) = map Ret ds
           \<and> snd (aggregate t r files fetched)
             = Ret (binary64_totals
                 (map (\<lambda>i. number (distance (ds ! i))) (succeeded fetched (length files)))
                 (map (\<lambda>i. number (elevation (ds ! i))) (succeeded fetched (length files)))))"
    using aggregate_within [of files fetched t r b] by blast
  from a b c d e f g h show ?thesis by blast
qed

lemma sample_climb_record: "track_record sample_climb \<and> numeric_overrides sample_climb"
proof
  show "track_record sample_climb"
    by (simp add: sample_climb_def track_record_def is_geometry_def is_path_def
        numeric_point_def)
  show "numeric_overrides sample_climb"
    by (simp add: numeric_overrides_def sample_climb_props overridden_def)
qed

theorem aggregate_partial_failure_witness:
  "[''day-1.geojson'', ''day-2.geojson'', ''day-3.geojson''] \<noteq> []
   \<and> track_record (stated_day 14.2 3800) \<and> numeric_overrides (stated_day 14.2 3800)
   \<and> track_record sample_climb \<and> numeric_overrides sample_climb
   \<and> fst (aggregate ''jmt'' ''../data''
         [''day-1.geojson'', ''day-2.geojson'', ''day-3.geojson'']
         (\<lambda>i. if i = 0 then Inr (stated_day 14.2 3800)
              else if i = 1 then Inl (Error ''HTTP 404'') else Inr sample_climb))
       = [Ret \<lparr>index = 0, filename = ''day-1.geojson'', url = ''../data/jmt/day-1.geojson'',
               ok = True, geojson = stated_day 14.2 3800, dayNumber = JNum 1,
               distance = JNum 14.2, elevation = JNum 3800, error = None\<rparr>,
          Ret \<lparr>index = 1, filename = ''day-2.geojson'', url = ''../data/jmt/day-2.geojson'',
               ok = False, geojson = JNull, dayNumber = JNum 2, distance = JNum 0,
               elevation = JNum 0, error = Some (Error ''HTTP 404'')\<rparr>,
          Ret \<lparr>index = 2, filename = ''day-3.geojson'', url = ''../data/jmt/day-3.geojson'',
               ok = True, geojson = sample_climb, dayNumber = JNum 3,
               distance = JNum 0, elevation = JNum 20, error = None\<rparr>]
   \<and> succeeded (\<lambda>i. if i = 0 then Inr (stated_day 14.2 3800)
              else if i = 1 then Inl (Error ''HTTP 404'') else Inr sample_climb) 3 = [0, 2]
   \<and> snd (aggregate ''jmt'' ''../data''
         [''day-1.geojson'', ''day-2.geojson'', ''day-3.geojson'']
         (\<lambda>i. if i = 0 then Inr (stated_day 14.2 3800)
              else if i = 1 then Inl (Error ''HTTP 404'') else Inr sample_climb))
       = Ret \<lparr>totalDistance = binary64 14.2, totalElevation = 3820, daysCount = 2\<rparr>"
proof -
  let ?files = "[''day-1.geojson'', ''day-2.geojson'', ''day-3.geojson'']"
  let ?F = "\<lambda>i :: nat. if i = 0 then Inr (stated_day 14.2 3800)
              else if i = 1 then Inl (Error ''HTTP 404'') else Inr sample_climb"
  let ?d0 = "\<lparr>index = 0, filename = ''day-1.geojson'', url = ''../data/jmt/day-1.geojson'',
               ok = True, geojson = stated_day 14.2 3800, dayNumber = JNum 1,
               distance = JNum 14.2, elevation = JNum 3800, error = None\<rparr>"
  let ?d1 = "\<lparr>index = 1, filename = ''day-2.geojson'', url = ''../data/jmt/day-2.geojson'',
               ok = False, geojson = JNull, dayNumber = JNum 2, distance = JNum 0,
               elevation = JNum 0, error = Some (Error ''HTTP 404'')\<rparr>"
  let ?d2 = "\<lparr>index = 2, filename = ''day-3.geojson'', url = ''../data/jmt/day-3.geojson'',
               ok = True, geojson = sample_climb, dayNumber = JNum 3,
               distance = JNum 0, elevation = JNum 20, error = None\<rparr>"
  have ne: "?files \<noteq> []" by simp
  note T = aggregate_partial_failure [OF ne, where t = "''jmt''" and r = "''../data''"
      and fetched = ?F and b = 12]
  have len: "length ?files = 3" by simp
  have s: "succeeded ?F 3 = [0, 2]"
    by (simp add: succeeded_def upt_conv_Cons)
  have days: "fst (aggregate ''jmt'' ''../data'' ?files ?F) = [Ret ?d0, Ret ?d1, Ret ?d2]"
  proof -
    from T have "\<forall>i < length ?files. fst (aggregate ''jmt'' ''../data'' ?files ?F) ! i
          = loadDayGeoJSON ''jmt'' ''../data'' (?files ! i) i (?F i)"
      and "length (fst (aggregate ''jmt'' ''../data'' ?files ?F)) = length ?files"
      by blast+
    then have "fst (aggregate ''jmt'' ''../data'' ?files ?F) ! 0 = Ret ?d0"
      and "fst (aggregate ''jmt'' ''../data'' ?files ?F) ! 1 = Ret ?d1"
      and "fst (aggregate ''jmt'' ''../data'' ?files ?F) ! 2 = Ret ?d2"
      and "length (fst (aggregate ''jmt'' ''../data'' ?files ?F)) = 3"
      by (simp_all add: stated_day_result loadDayGeoJSON_failed sample_climb_day)
    then show ?thesis
      by (intro nth_equalityI) (auto simp: less_Suc_eq numeral_3_eq_3 numeral_2_eq_2)
  qed
  have h1: "\<forall>i < length ?files. \<forall>g. ?F i = Inr g \<longrightarrow> track_record g \<and> numeric_overrides g"
    using sample_climb_record stated_day_record by auto
  have h2: "\<forall>i < length ?files. \<forall>d. fst (aggregate ''jmt'' ''../data'' ?files ?F) ! i = Ret d
      \<longrightarrow> stats_within 12 d"
    unfolding days
    by (auto simp: less_Suc_eq numeral_3_eq_3 stats_within_def number_def)
  have h3: "12 + length ?files < 1019" by simp
  from T h1 h2 h3 obtain ds where ds: "fst (aggregate ''jmt'' ''../data'' ?files ?F) = map Ret ds"
    and tot: "snd (aggregate ''jmt'' ''../data'' ?files ?F)
             = Ret (binary64_totals
                 (map (\<lambda>i. number (distance (ds ! i))) (succeeded ?F (length ?files)))
                 (map (\<lambda>i. number (elevation (ds ! i))) (succeeded ?F (length ?files))))"
    by blast
  from ds have "map Ret ds = map Ret [?d0, ?d1, ?d2]" unfolding days by simp
  then have "ds = [?d0, ?d1, ?d2]" by (simp only: inj_map_eq_map [OF inj_Ret])
  with tot have "snd (aggregate ''jmt'' ''../data'' ?files ?F)
      = Ret (binary64_totals [14.2, 0] [3800, 20])"
    unfolding len s by (simp add: number_def)
  also have "\<dots> = Ret \<lparr>totalDistance = binary64 14.2, totalElevation = 3820, daysCount = 2\<rparr>"
    by (simp add: totals_eval)
  finally have 3: "snd (aggregate ''jmt'' ''../data'' ?files ?F)
      = Ret \<lparr>totalDistance = binary64 14.2, totalElevation = 3820, daysCount = 2\<rparr>" .
  from ne stated_day_record [of "14.2" 3800] sample_climb_record days s 3 show ?thesis by blast
qed

end
